theory Spec2Isabelle
  imports Main "HOL-Library.AList"
begin

section \<open>JavaScript values, objects and the heap\<close>

text \<open>
  The engine works on JavaScript values whose objects have identity and are mutated in
  place, and on schema graphs that may be cyclic. Values are therefore primitives or
  references into a heap; the heap is a list of objects, an address is an index, and
  allocation appends. Numbers are modelled as integers (ids are integers or strings).
  A dictionary-like JavaScript object is an association list in the order in which
  \<^verbatim>\<open>Object.keys\<close> enumerates it; the special ordering of integer-like keys
  is not modelled. Objects have no properties of their own that are functions. Of the
  prototype chain the model has the members of \<^verbatim>\<open>Object.prototype\<close>, by
  name (\<open>object_prototype_keys\<close>), in the two places where the engine looks a
  data-dependent key up through the chain: the visited lists of
  \<^verbatim>\<open>Entity.normalize\<close> and the schema mapping of a polymorphic container.
\<close>

type_synonym addr = nat

datatype val = Undefined | Null | Bool bool | Num int | Str string | Ref addr

type_synonym props = "(string \<times> val) list"

datatype obj =
    PlainObj props
  | ArrayObj "val list"
  | ImmutableObj props

type_synonym heap = "obj list"

definition obj_at :: "heap \<Rightarrow> addr \<Rightarrow> obj" where
  "obj_at h a = (if a < length h then h ! a else PlainObj [])"

definition alloc :: "obj \<Rightarrow> heap \<Rightarrow> val \<times> heap" where
  "alloc ob h = (Ref (length h), h @ [ob])"

fun typeof :: "val \<Rightarrow> string" where
  "typeof Undefined = ''undefined''"
| "typeof Null = ''object''"
| "typeof (Bool b) = ''boolean''"
| "typeof (Num n) = ''number''"
| "typeof (Str s) = ''string''"
| "typeof (Ref a) = ''object''"

fun nullish :: "val \<Rightarrow> bool" where
  "nullish Undefined = True"
| "nullish Null = True"
| "nullish v = False"

fun falsy :: "val \<Rightarrow> bool" where
  "falsy Undefined = True"
| "falsy Null = True"
| "falsy (Bool b) = (\<not> b)"
| "falsy (Num n) = (n = 0)"
| "falsy (Str s) = (s = [])"
| "falsy (Ref a) = False"

definition isArray :: "heap \<Rightarrow> val \<Rightarrow> bool" where
  "isArray h v = (case v of Ref a \<Rightarrow> (case obj_at h a of ArrayObj vs \<Rightarrow> True | _ \<Rightarrow> False) | _ \<Rightarrow> False)"

text \<open>
  The immutable-style container is an external collaborator reached through
  \<^verbatim>\<open>get\<close>, \<^verbatim>\<open>set\<close> and \<^verbatim>\<open>has\<close>. The source detects it structurally
  (\<^verbatim>\<open>isImmutable\<close>: a defined \<^verbatim>\<open>__ownerID\<close>, or a \<^verbatim>\<open>_map\<close> that has
  one); in the model the containers are the heap objects of their own kind, whose internal
  properties are invisible to property reads and to \<^verbatim>\<open>Object.keys\<close>. A plain
  object that carries one of these two fields would pass the source's test without having
  the container's methods; the model takes it for a plain object, so such objects are
  outside the model. \<open>unmarked\<close> and \<open>marks_agree\<close> say that a record, or a
  value, is none of them, and the properties that depend on the test assume it of the
  plain objects the engine tests.
\<close>

definition isImmutable :: "heap \<Rightarrow> val \<Rightarrow> bool" where
  "isImmutable h v = (case v of Ref a \<Rightarrow> (case obj_at h a of ImmutableObj fs \<Rightarrow> True | _ \<Rightarrow> False) | _ \<Rightarrow> False)"



subsection \<open>Strings of numbers and property keys\<close>

function string_of_nat :: "nat \<Rightarrow> string" where
  "string_of_nat n =
     (if n < 10 then [''0123456789'' ! n]
      else string_of_nat (n div 10) @ [''0123456789'' ! (n mod 10)])"
  by pat_completeness auto
termination
  by (relation "measure id") auto

definition string_of_int :: "int \<Rightarrow> string" where
  "string_of_int i = (if i < 0 then CHR ''-'' # string_of_nat (nat (- i)) else string_of_nat (nat i))"

fun string_of_prim :: "val \<Rightarrow> string" where
  "string_of_prim Undefined = ''undefined''"
| "string_of_prim Null = ''null''"
| "string_of_prim (Bool b) = (if b then ''true'' else ''false'')"
| "string_of_prim (Num n) = string_of_int n"
| "string_of_prim (Str s) = s"
| "string_of_prim (Ref a) = ''[object Object]''"

fun join :: "string list \<Rightarrow> string" where
  "join [] = []"
| "join [s] = s"
| "join (s # t # ss) = s @ '','' @ join (t # ss)"

text \<open>
  \<^verbatim>\<open>String(v)\<close>, as used by template literals and by property access with a
  non-string key. An array is joined one level deep (a nested array element is printed
  as an object); an immutable-style container prints as an object.
\<close>

definition ToString :: "heap \<Rightarrow> val \<Rightarrow> string" where
  "ToString h v =
     (case v of
        Ref a \<Rightarrow>
          (case obj_at h a of
             ArrayObj vs \<Rightarrow> join (map (\<lambda>x. if nullish x then [] else string_of_prim x) vs)
           | _ \<Rightarrow> ''[object Object]'')
      | _ \<Rightarrow> string_of_prim v)"

subsection \<open>Own properties\<close>

text \<open>
  The names of the members of \<^verbatim>\<open>Object.prototype\<close>, which every object
  created by a literal inherits: eleven functions and the accessor
  \<^verbatim>\<open>__proto__\<close>. None of them is enumerable.
\<close>

definition object_prototype_keys :: "string list" where
  "object_prototype_keys =
     [''constructor'', ''__defineGetter__'', ''__defineSetter__'', ''hasOwnProperty'',
      ''__lookupGetter__'', ''__lookupSetter__'', ''isPrototypeOf'', ''propertyIsEnumerable'',
      ''toString'', ''valueOf'', ''__proto__'', ''toLocaleString'']"

definition index_keys :: "nat \<Rightarrow> string list" where
  "index_keys n = map string_of_nat [0..<n]"

text \<open>The own enumerable properties that \<^verbatim>\<open>Object.keys\<close> and object spread see.\<close>

definition own_props :: "heap \<Rightarrow> val \<Rightarrow> props" where
  "own_props h v =
     (case v of
        Ref a \<Rightarrow>
          (case obj_at h a of
             PlainObj fs \<Rightarrow> fs
           | ArrayObj vs \<Rightarrow> zip (index_keys (length vs)) vs
           | ImmutableObj fs \<Rightarrow> [])
      | Str s \<Rightarrow> zip (index_keys (length s)) (map (\<lambda>c. Str [c]) s)
      | _ \<Rightarrow> [])"

definition hasOwn :: "heap \<Rightarrow> val \<Rightarrow> string \<Rightarrow> bool" where
  "hasOwn h v k = (map_of (own_props h v) k \<noteq> None)"

text \<open>
  Property read \<^verbatim>\<open>v[k]\<close> on a value that is not \<^verbatim>\<open>null\<close> or
  \<^verbatim>\<open>undefined\<close> (on those JavaScript throws; callers that can reach them
  test for them first or use \<open>get_prop_opt\<close>).
\<close>

definition get_prop :: "heap \<Rightarrow> val \<Rightarrow> string \<Rightarrow> val" where
  "get_prop h v k =
     (case map_of (own_props h v) k of
        Some x \<Rightarrow> x
      | None \<Rightarrow>
          (if k = ''length'' then
             (case v of
                Ref a \<Rightarrow> (case obj_at h a of ArrayObj vs \<Rightarrow> Num (int (length vs)) | _ \<Rightarrow> Undefined)
              | Str s \<Rightarrow> Num (int (length s))
              | _ \<Rightarrow> Undefined)
           else Undefined))"

text \<open>Optional chaining \<^verbatim>\<open>v?.k\<close>.\<close>

definition get_prop_opt :: "heap \<Rightarrow> val \<Rightarrow> string \<Rightarrow> val" where
  "get_prop_opt h v k = (if nullish v then Undefined else get_prop h v k)"

text \<open>Assignment \<^verbatim>\<open>o[k] = x\<close> and \<^verbatim>\<open>delete o[k]\<close> on a plain object.\<close>

definition set_prop :: "heap \<Rightarrow> val \<Rightarrow> string \<Rightarrow> val \<Rightarrow> heap" where
  "set_prop h v k x =
     (case v of
        Ref a \<Rightarrow>
          (if a < length h then
             (case h ! a of PlainObj fs \<Rightarrow> h[a := PlainObj (AList.update k x fs)] | _ \<Rightarrow> h)
           else h)
      | _ \<Rightarrow> h)"

definition delete_prop :: "heap \<Rightarrow> val \<Rightarrow> string \<Rightarrow> heap" where
  "delete_prop h v k =
     (case v of
        Ref a \<Rightarrow>
          (if a < length h then
             (case h ! a of PlainObj fs \<Rightarrow> h[a := PlainObj (AList.delete k fs)] | _ \<Rightarrow> h)
           else h)
      | _ \<Rightarrow> h)"

text \<open>The capability of the immutable-style container.\<close>

definition immutable_entries :: "heap \<Rightarrow> val \<Rightarrow> props" where
  "immutable_entries h v =
     (case v of
        Ref a \<Rightarrow> (case obj_at h a of ImmutableObj fs \<Rightarrow> fs | _ \<Rightarrow> [])
      | _ \<Rightarrow> [])"

definition immutable_has :: "heap \<Rightarrow> val \<Rightarrow> string \<Rightarrow> bool" where
  "immutable_has h v k = (map_of (immutable_entries h v) k \<noteq> None)"

definition immutable_get :: "heap \<Rightarrow> val \<Rightarrow> string \<Rightarrow> val" where
  "immutable_get h v k = (case map_of (immutable_entries h v) k of Some x \<Rightarrow> x | None \<Rightarrow> Undefined)"

definition immutable_set :: "heap \<Rightarrow> val \<Rightarrow> string \<Rightarrow> val \<Rightarrow> val \<times> heap" where
  "immutable_set h v k x = alloc (ImmutableObj (AList.update k x (immutable_entries h v))) h"

section \<open>Errors and outcomes\<close>

datatype error =
    UnexpectedInput string
  | EntityValidation string string
  | SingleSchemaExpected nat
  | CircularReference string string
  | TypeError

text \<open>
  The traversals are unbounded recursions over a possibly cyclic schema graph, so the
  model recurses on fuel: \<open>Diverged\<close> is the value of a run that needs more.
\<close>

datatype 'a outcome = Diverged | Threw error | Returned 'a

fun bind :: "'a outcome \<Rightarrow> ('a \<Rightarrow> 'b outcome) \<Rightarrow> 'b outcome" where
  "bind Diverged f = Diverged"
| "bind (Threw e) f = Threw e"
| "bind (Returned x) f = f x"

fun lift :: "error + 'a \<Rightarrow> 'a outcome" where
  "lift (Inl e) = Threw e"
| "lift (Inr x) = Returned x"

text \<open>\<^verbatim>\<open>xs.map(f)\<close> with a callback that threads the state, left to right.\<close>

fun mapM :: "('a \<Rightarrow> 's \<Rightarrow> ('b \<times> 's) outcome) \<Rightarrow> 'a list \<Rightarrow> 's \<Rightarrow> ('b list \<times> 's) outcome" where
  "mapM f [] s = Returned ([], s)"
| "mapM f (x # xs) s =
     bind (f x s) (\<lambda>(y, s'). bind (mapM f xs s') (\<lambda>(ys, s''). Returned (y # ys, s'')))"

text \<open>\<^verbatim>\<open>xs.forEach(f)\<close> with a callback that changes the state.\<close>

fun forEach :: "('a \<Rightarrow> 's \<Rightarrow> 's outcome) \<Rightarrow> 'a list \<Rightarrow> 's \<Rightarrow> 's outcome" where
  "forEach f [] s = Returned s"
| "forEach f (x # xs) s = bind (f x s) (forEach f xs)"

section \<open>The schema model\<close>

text \<open>
  A schema is an instance of a schema class, a bare one-element array, a bare
  field-to-schema object, a function of the parent value, or \<^verbatim>\<open>undefined\<close> (what
  a lookup in a mapping or in an empty array shorthand yields). Instances are mutable
  (\<^verbatim>\<open>define\<close>), which is how schema graphs become cyclic: they live in a class
  table and are referred to by index. User callbacks are pure functions of the heap.
\<close>

datatype schema =
    SchemaClass nat
  | ArrayShorthand "schema list"
  | ObjectShorthand "(string \<times> schema) list"
  | SchemaFunction "heap \<Rightarrow> val \<Rightarrow> schema"
  | UndefinedSchema

type_synonym SchemaDefinition = "(string \<times> schema) list"

datatype IdAttribute = IdName string | IdFn "heap \<Rightarrow> val \<Rightarrow> val \<Rightarrow> val \<Rightarrow> val"

datatype SchemaAttribute = AttrName string | AttrFn "heap \<Rightarrow> val \<Rightarrow> val \<Rightarrow> val \<Rightarrow> val"

record EntitySchema =
  Entity_key :: string
  idAttribute :: IdAttribute
  Entity_schema :: SchemaDefinition
  mergeStrategy :: "props \<Rightarrow> props \<Rightarrow> props"
  processStrategy :: "heap \<Rightarrow> val \<Rightarrow> val \<Rightarrow> val \<Rightarrow> props"
  fallbackStrategy :: "val \<Rightarrow> props option"

record PolymorphicSchema =
  Polymorphic_schema :: schema
  schemaAttribute :: "SchemaAttribute option"

datatype schema_class =
    Entity EntitySchema
  | ObjectSchema SchemaDefinition
  | ArraySchema PolymorphicSchema
  | ValuesSchema PolymorphicSchema
  | UnionSchema PolymorphicSchema

type_synonym classes = "nat \<Rightarrow> schema_class"

text \<open>The defaults of the Entity constructor.\<close>

definition default_merge :: "props \<Rightarrow> props \<Rightarrow> props" where
  "default_merge entityA entityB = fold (\<lambda>(k, v). AList.update k v) entityB entityA"

definition default_process :: "heap \<Rightarrow> val \<Rightarrow> val \<Rightarrow> val \<Rightarrow> props" where
  "default_process h input parent key = own_props h input"

definition default_fallback :: "val \<Rightarrow> props option" where
  "default_fallback ident = None"

definition new_Entity :: "string \<Rightarrow> SchemaDefinition \<Rightarrow> EntitySchema" where
  "new_Entity key definition =
     \<lparr> Entity_key = key, idAttribute = IdName ''id'', Entity_schema = definition,
       mergeStrategy = default_merge, processStrategy = default_process,
       fallbackStrategy = default_fallback \<rparr>"

section \<open>Normalization\<close>

record nstate =
  n_heap :: heap
  entities :: "(string \<times> props) list"
  visitedEntities :: "(string \<times> (string \<times> val list) list) list"

type_synonym VisitFn = "val \<Rightarrow> val \<Rightarrow> val \<Rightarrow> schema \<Rightarrow> nstate \<Rightarrow> (val \<times> nstate) outcome"

subsection \<open>Array shorthand\<close>

definition validateSchema :: "schema list \<Rightarrow> error + schema" where
  "validateSchema definition =
     (if length definition > 1 then Inl (SingleSchemaExpected (length definition))
      else Inr (case definition of [] \<Rightarrow> UndefinedSchema | s # ss \<Rightarrow> s))"

definition array_elements :: "heap \<Rightarrow> val \<Rightarrow> val list" where
  "array_elements h v =
     (case v of Ref a \<Rightarrow> (case obj_at h a of ArrayObj vs \<Rightarrow> vs | _ \<Rightarrow> []) | _ \<Rightarrow> [])"

definition getValues :: "heap \<Rightarrow> val \<Rightarrow> val list" where
  "getValues h input =
     (if isArray h input then array_elements h input
      else map (\<lambda>key. get_prop h input key) (map fst (own_props h input)))"

definition ArrayUtils_normalize ::
  "VisitFn \<Rightarrow> schema list \<Rightarrow> val \<Rightarrow> val \<Rightarrow> val \<Rightarrow> nstate \<Rightarrow> (val \<times> nstate) outcome" where
  "ArrayUtils_normalize visit schema input parent key st =
     bind (lift (validateSchema schema)) (\<lambda>validatedSchema.
       bind (mapM (\<lambda>value. visit value parent key validatedSchema) (getValues (n_heap st) input) st)
         (\<lambda>(vs, st'). case alloc (ArrayObj vs) (n_heap st') of
                          (r, h') \<Rightarrow> Returned (r, st'\<lparr>n_heap := h'\<rparr>)))"

subsection \<open>Object shorthand and the Object schema\<close>

text \<open>
  \<^verbatim>\<open>Object.keys(schema)\<close> on what reaches the object path of
  \<open>visit\<close> and \<open>unvisit\<close>: a bare object, a function (no own keys) or
  \<^verbatim>\<open>undefined\<close> (a TypeError).
\<close>

fun schema_keys :: "schema \<Rightarrow> error + SchemaDefinition" where
  "schema_keys (ObjectShorthand d) = Inr d"
| "schema_keys UndefinedSchema = Inl TypeError"
| "schema_keys s = Inr []"

fun resolve :: "heap \<Rightarrow> schema \<Rightarrow> val \<Rightarrow> schema" where
  "resolve h (SchemaFunction f) input = f h input"
| "resolve h s input = s"

definition ObjectUtils_normalize_field ::
  "VisitFn \<Rightarrow> val \<Rightarrow> val \<Rightarrow> string \<times> schema \<Rightarrow> nstate \<Rightarrow> nstate outcome" where
  "ObjectUtils_normalize_field visit typedInput object = (\<lambda>(schemaKey, localSchema) st.
     bind (visit (get_prop (n_heap st) typedInput schemaKey) typedInput (Str schemaKey)
             (resolve (n_heap st) localSchema typedInput) st)
       (\<lambda>(value, st').
          if nullish value then Returned (st'\<lparr>n_heap := delete_prop (n_heap st') object schemaKey\<rparr>)
          else Returned (st'\<lparr>n_heap := set_prop (n_heap st') object schemaKey value\<rparr>)))"

definition ObjectUtils_normalize ::
  "VisitFn \<Rightarrow> schema \<Rightarrow> val \<Rightarrow> val \<Rightarrow> val \<Rightarrow> nstate \<Rightarrow> (val \<times> nstate) outcome" where
  "ObjectUtils_normalize visit schema input parent key st =
     (case alloc (PlainObj (own_props (n_heap st) input)) (n_heap st) of
        (object, h') \<Rightarrow>
          bind (lift (schema_keys schema)) (\<lambda>d.
            bind (forEach (ObjectUtils_normalize_field visit input object) d (st\<lparr>n_heap := h'\<rparr>))
              (\<lambda>st'. Returned (object, st'))))"

subsection \<open>Entity\<close>

definition getId :: "EntitySchema \<Rightarrow> heap \<Rightarrow> val \<Rightarrow> val \<Rightarrow> val \<Rightarrow> val" where
  "getId e h input parent key =
     (case idAttribute e of
        IdFn f \<Rightarrow> f h input parent key
      | IdName a \<Rightarrow> (if isImmutable h input then immutable_get h input a else get_prop h input a))"

definition validate :: "EntitySchema \<Rightarrow> heap \<Rightarrow> val \<Rightarrow> error + val" where
  "validate e h input =
     (if input = Null \<or> typeof input \<noteq> ''object'' \<or> isArray h input then
        Inl (EntityValidation (Entity_key e)
               (if input = Null then ''null'' else if isArray h input then ''an array'' else typeof input))
      else Inr input)"

definition addEntities :: "EntitySchema \<Rightarrow> val \<Rightarrow> val \<Rightarrow> val \<Rightarrow> val \<Rightarrow> nstate \<Rightarrow> nstate" where
  "addEntities schema processedEntity value parent key st =
     (let schemaKey = Entity_key schema;
          ident = ToString (n_heap st) (getId schema (n_heap st) value parent key);
          ents = (if map_of (entities st) schemaKey = None
                  then AList.update schemaKey [] (entities st) else entities st);
          bucket = (case map_of ents schemaKey of Some b \<Rightarrow> b | None \<Rightarrow> [])
      in case map_of bucket ident of
           Some existingEntity \<Rightarrow>
             (case alloc (PlainObj (mergeStrategy schema (own_props (n_heap st) existingEntity)
                                       (own_props (n_heap st) processedEntity))) (n_heap st) of
                (merged, h') \<Rightarrow>
                  st\<lparr>n_heap := h', entities := AList.update schemaKey (AList.update ident merged bucket) ents\<rparr>)
         | None \<Rightarrow>
             st\<lparr>entities := AList.update schemaKey (AList.update ident processedEntity bucket) ents\<rparr>)"

text \<open>
  The visited lists are the own properties of \<^verbatim>\<open>visitedEntities\<close> and of its
  buckets, which are created by object literals. \<open>visited_list\<close> is the list a
  type and an id key own (empty when they own none); the test
  \<^verbatim>\<open>id in visitedEntities[entityType]\<close> also sees the members of
  \<^verbatim>\<open>Object.prototype\<close> (\<open>in_visited\<close>). An entity type that is itself
  named like such a member and owns no bucket is outside the model: the source then keeps
  the lists on the inherited member, which outlives the call.
\<close>

definition visited_list :: "nstate \<Rightarrow> string \<Rightarrow> string \<Rightarrow> val list" where
  "visited_list st entityType ident =
     (case map_of (visitedEntities st) entityType of
        None \<Rightarrow> []
      | Some m \<Rightarrow> (case map_of m ident of None \<Rightarrow> [] | Some l \<Rightarrow> l))"

definition owns_visited_list :: "nstate \<Rightarrow> string \<Rightarrow> string \<Rightarrow> bool" where
  "owns_visited_list st entityType ident =
     (case map_of (visitedEntities st) entityType of
        None \<Rightarrow> False
      | Some m \<Rightarrow> map_of m ident \<noteq> None)"

definition in_visited :: "nstate \<Rightarrow> string \<Rightarrow> string \<Rightarrow> bool" where
  "in_visited st entityType ident =
     (owns_visited_list st entityType ident \<or> ident \<in> set object_prototype_keys)"

definition mark_visited :: "string \<Rightarrow> string \<Rightarrow> val list \<Rightarrow> nstate \<Rightarrow> nstate" where
  "mark_visited entityType ident l st =
     (let m = (case map_of (visitedEntities st) entityType of None \<Rightarrow> [] | Some m \<Rightarrow> m)
      in st\<lparr>visitedEntities := AList.update entityType (AList.update ident l m) (visitedEntities st)\<rparr>)"

definition Entity_normalize_field ::
  "VisitFn \<Rightarrow> val \<Rightarrow> val \<Rightarrow> string \<times> schema \<Rightarrow> nstate \<Rightarrow> nstate outcome" where
  "Entity_normalize_field visit typedInput processedEntity = (\<lambda>(schemaKey, nestedSchema) st.
     if hasOwn (n_heap st) processedEntity schemaKey
        \<and> typeof (get_prop (n_heap st) processedEntity schemaKey) = ''object''
     then
       bind (visit (get_prop (n_heap st) processedEntity schemaKey) processedEntity (Str schemaKey)
               (resolve (n_heap st) nestedSchema typedInput) st)
         (\<lambda>(value, st'). Returned (st'\<lparr>n_heap := set_prop (n_heap st') processedEntity schemaKey value\<rparr>))
     else Returned st)"

text \<open>
  When the id key is found in the bucket only as an inherited member, no list is created
  for it, and \<^verbatim>\<open>visitedEntities[entityType][id].some\<close> is read from a built-in
  function (or, for \<^verbatim>\<open>__proto__\<close>, from the prototype object), where it is
  \<^verbatim>\<open>undefined\<close>: the call throws a TypeError.
\<close>

definition Entity_normalize ::
  "VisitFn \<Rightarrow> EntitySchema \<Rightarrow> val \<Rightarrow> val \<Rightarrow> val \<Rightarrow> nstate \<Rightarrow> (val \<times> nstate) outcome" where
  "Entity_normalize visit e input parent key st =
     bind (lift (validate e (n_heap st) input)) (\<lambda>typedInput.
       let ident = getId e (n_heap st) typedInput parent key;
           entityType = Entity_key e;
           seen = visited_list st entityType (ToString (n_heap st) ident);
           st0 = mark_visited entityType (ToString (n_heap st) ident) seen st
       in if in_visited st entityType (ToString (n_heap st) ident)
             \<and> \<not> owns_visited_list st entityType (ToString (n_heap st) ident)
          then Threw TypeError
          else if typedInput \<in> set seen then Returned (ident, st0)
          else
            (let st1 = mark_visited entityType (ToString (n_heap st) ident) (seen @ [typedInput]) st0
             in case alloc (PlainObj (processStrategy e (n_heap st1) typedInput parent key)) (n_heap st1) of
                  (processedEntity, h') \<Rightarrow>
                    bind (forEach (Entity_normalize_field visit typedInput processedEntity)
                            (Entity_schema e) (st1\<lparr>n_heap := h'\<rparr>))
                      (\<lambda>st2. Returned (ident, addEntities e processedEntity typedInput parent key st2))))"

subsection \<open>Polymorphic containers: Array, Values, Union\<close>

definition new_Polymorphic :: "schema \<Rightarrow> SchemaAttribute option \<Rightarrow> PolymorphicSchema" where
  "new_Polymorphic definition attr =
     \<lparr> Polymorphic_schema = definition,
       schemaAttribute = (case attr of
                            Some (AttrName a) \<Rightarrow> (if a = [] then None else attr)
                          | _ \<Rightarrow> attr) \<rparr>"

definition isSingleSchema :: "PolymorphicSchema \<Rightarrow> bool" where
  "isSingleSchema p = (schemaAttribute p = None)"

text \<open>
  A string attribute reads a property of the element, which throws on
  \<^verbatim>\<open>null\<close> and \<^verbatim>\<open>undefined\<close>.
\<close>

definition getSchemaAttribute :: "PolymorphicSchema \<Rightarrow> heap \<Rightarrow> val \<Rightarrow> val \<Rightarrow> val \<Rightarrow> error + val" where
  "getSchemaAttribute p h input parent key =
     (case schemaAttribute p of
        None \<Rightarrow> Inr (Bool False)
      | Some (AttrName a) \<Rightarrow> (if nullish input then Inl TypeError else Inr (get_prop h input a))
      | Some (AttrFn f) \<Rightarrow> Inr (f h input parent key))"

text \<open>
  The lookup \<^verbatim>\<open>this.schema[attr]\<close> in a schema mapping, which is a bare object
  created by a literal. A key that the mapping does not own but
  \<^verbatim>\<open>Object.prototype\<close> has yields the inherited member: a built-in function or,
  for \<^verbatim>\<open>__proto__\<close>, the prototype object. Either is truthy, is no schema class
  and no array, and has no enumerable keys, so both the visitor and the unvisitor treat it
  as a bare object without fields, which is what stands for it here. The properties of
  other schema values used as a mapping are not modelled.
\<close>

fun schema_property :: "schema \<Rightarrow> string \<Rightarrow> schema" where
  "schema_property (ObjectShorthand m) k =
     (case map_of m k of
        Some s \<Rightarrow> s
      | None \<Rightarrow> if k \<in> set object_prototype_keys then ObjectShorthand [] else UndefinedSchema)"
| "schema_property s k = UndefinedSchema"

fun is_undefined_schema :: "schema \<Rightarrow> bool" where
  "is_undefined_schema UndefinedSchema = True"
| "is_undefined_schema s = False"

definition inferSchema :: "PolymorphicSchema \<Rightarrow> heap \<Rightarrow> val \<Rightarrow> val \<Rightarrow> val \<Rightarrow> error + schema" where
  "inferSchema p h input parent key =
     (if isSingleSchema p then Inr (Polymorphic_schema p)
      else case getSchemaAttribute p h input parent key of
             Inl e \<Rightarrow> Inl e
           | Inr attr \<Rightarrow>
               (if attr = Bool False then Inr UndefinedSchema
                else Inr (schema_property (Polymorphic_schema p) (ToString h attr))))"

definition normalizeValue ::
  "VisitFn \<Rightarrow> PolymorphicSchema \<Rightarrow> val \<Rightarrow> val \<Rightarrow> val \<Rightarrow> nstate \<Rightarrow> (val \<times> nstate) outcome" where
  "normalizeValue visit p value parent key st =
     bind (lift (inferSchema p (n_heap st) value parent key)) (\<lambda>schema.
       if is_undefined_schema schema then Returned (value, st)
       else
         bind (visit value parent key schema st) (\<lambda>(normalizedValue, st').
           if isSingleSchema p \<or> nullish normalizedValue then Returned (normalizedValue, st')
           else
             bind (lift (getSchemaAttribute p (n_heap st') value parent key)) (\<lambda>attr.
               case alloc (PlainObj [(''id'', normalizedValue), (''schema'', attr)]) (n_heap st') of
                 (r, h') \<Rightarrow> Returned (r, st'\<lparr>n_heap := h'\<rparr>))))"

definition key_or_empty :: "val \<Rightarrow> val" where
  "key_or_empty key = (if nullish key then Str [] else key)"

definition ArraySchema_normalize ::
  "VisitFn \<Rightarrow> PolymorphicSchema \<Rightarrow> val \<Rightarrow> val \<Rightarrow> val \<Rightarrow> nstate \<Rightarrow> (val \<times> nstate) outcome" where
  "ArraySchema_normalize visit p input parent key st =
     bind (mapM (\<lambda>value. normalizeValue visit p value parent (key_or_empty key))
             (getValues (n_heap st) input) st)
       (\<lambda>(vs, st'). case alloc (ArrayObj (filter (\<lambda>value. \<not> nullish value) vs)) (n_heap st') of
                        (r, h') \<Rightarrow> Returned (r, st'\<lparr>n_heap := h'\<rparr>))"

text \<open>
  The accumulator objects that \<^verbatim>\<open>reduce\<close> builds in
  \<^verbatim>\<open>Values.normalize\<close> are unreachable garbage but the last; only the result
  is allocated.
\<close>

definition ValuesSchema_normalize_step ::
  "VisitFn \<Rightarrow> PolymorphicSchema \<Rightarrow> val \<Rightarrow> string \<Rightarrow> props \<times> nstate \<Rightarrow> (props \<times> nstate) outcome" where
  "ValuesSchema_normalize_step visit p typedInput inputKey = (\<lambda>(output, st).
     let value = get_prop (n_heap st) typedInput inputKey
     in if \<not> nullish value then
          bind (normalizeValue visit p value typedInput (Str inputKey) st)
            (\<lambda>(v, st'). Returned (AList.update inputKey v output, st'))
        else Returned (output, st))"

definition ValuesSchema_normalize ::
  "VisitFn \<Rightarrow> PolymorphicSchema \<Rightarrow> val \<Rightarrow> val \<Rightarrow> val \<Rightarrow> nstate \<Rightarrow> (val \<times> nstate) outcome" where
  "ValuesSchema_normalize visit p input parent key st =
     bind (forEach (ValuesSchema_normalize_step visit p input)
             (map fst (own_props (n_heap st) input)) ([], st))
       (\<lambda>(output, st'). case alloc (PlainObj output) (n_heap st') of
                            (r, h') \<Rightarrow> Returned (r, st'\<lparr>n_heap := h'\<rparr>))"

definition UnionSchema_normalize ::
  "VisitFn \<Rightarrow> PolymorphicSchema \<Rightarrow> val \<Rightarrow> val \<Rightarrow> val \<Rightarrow> nstate \<Rightarrow> (val \<times> nstate) outcome" where
  "UnionSchema_normalize visit p input parent key st =
     normalizeValue visit p input parent (key_or_empty key) st"

subsection \<open>The visitor and \<^verbatim>\<open>normalize\<close>\<close>

fun visit :: "nat \<Rightarrow> classes \<Rightarrow> VisitFn" where
  "visit 0 T value parent key schema st = Diverged"
| "visit (Suc n) T value parent key schema st =
     (if typeof value \<noteq> ''object'' \<or> value = Null then Returned (value, st)
      else
        (case schema of
           ArrayShorthand d \<Rightarrow> ArrayUtils_normalize (visit n T) d value parent key st
         | SchemaClass c \<Rightarrow>
             (case T c of
                Entity e \<Rightarrow> Entity_normalize (visit n T) e value parent key st
              | ObjectSchema d \<Rightarrow> ObjectUtils_normalize (visit n T) (ObjectShorthand d) value parent key st
              | ArraySchema p \<Rightarrow> ArraySchema_normalize (visit n T) p value parent key st
              | ValuesSchema p \<Rightarrow> ValuesSchema_normalize (visit n T) p value parent key st
              | UnionSchema p \<Rightarrow> UnionSchema_normalize (visit n T) p value parent key st)
         | _ \<Rightarrow> ObjectUtils_normalize (visit n T) schema value parent key st))"

definition initial_nstate :: "heap \<Rightarrow> nstate" where
  "initial_nstate h = \<lparr> n_heap = h, entities = [], visitedEntities = [] \<rparr>"

text \<open>
  \<^verbatim>\<open>normalize(input, schema)\<close>: the result and the final state, whose
  \<open>entities\<close> field is the returned store (its records live in the heap).
\<close>

definition normalize' :: "nat \<Rightarrow> classes \<Rightarrow> heap \<Rightarrow> val \<Rightarrow> schema \<Rightarrow> (val \<times> nstate) outcome" where
  "normalize' fuel T h input schema =
     (if falsy input \<or> typeof input \<noteq> ''object'' then
        Threw (UnexpectedInput (if input = Null then ''null'' else typeof input))
      else visit fuel T input input Undefined schema (initial_nstate h))"

section \<open>Denormalization\<close>

text \<open>
  The entity store handed to \<^verbatim>\<open>denormalize\<close> is a two-level dictionary of
  values; its records are heap objects. The state of one call is the heap, the cache of
  reconstructed entities and the set of cache keys in progress.
\<close>

type_synonym EntitiesMap = "(string \<times> props) list"

record dstate =
  d_heap :: heap
  cache :: "(string \<times> props) list"
  inProgress :: "string set"

type_synonym UnvisitFn = "val \<Rightarrow> schema \<Rightarrow> dstate \<Rightarrow> (val \<times> dstate) outcome"

subsection \<open>Array shorthand\<close>

text \<open>
  \<^verbatim>\<open>input.map(f)\<close> exists on arrays and on immutable-style containers, where it
  maps the entries' values into a new container.
\<close>

definition map_values ::
  "(val \<Rightarrow> dstate \<Rightarrow> (val \<times> dstate) outcome) \<Rightarrow> val \<Rightarrow> dstate \<Rightarrow> (val \<times> dstate) outcome" where
  "map_values f input st =
     (if isArray (d_heap st) input then
        bind (mapM f (array_elements (d_heap st) input) st)
          (\<lambda>(vs, st'). case alloc (ArrayObj vs) (d_heap st') of
                           (r, h') \<Rightarrow> Returned (r, st'\<lparr>d_heap := h'\<rparr>))
      else if isImmutable (d_heap st) input then
        bind (mapM f (map snd (immutable_entries (d_heap st) input)) st)
          (\<lambda>(vs, st'). case alloc (ImmutableObj (zip (map fst (immutable_entries (d_heap st) input)) vs))
                                 (d_heap st') of
                           (r, h') \<Rightarrow> Returned (r, st'\<lparr>d_heap := h'\<rparr>))
      else Returned (input, st))"

definition ArrayUtils_denormalize :: "UnvisitFn \<Rightarrow> schema list \<Rightarrow> val \<Rightarrow> dstate \<Rightarrow> (val \<times> dstate) outcome" where
  "ArrayUtils_denormalize unvisit schema input st =
     bind (lift (validateSchema schema)) (\<lambda>validatedSchema.
       map_values (\<lambda>entityOrId. unvisit entityOrId validatedSchema) input st)"

subsection \<open>Immutable-style containers\<close>

definition denormalizeImmutable_step ::
  "UnvisitFn \<Rightarrow> string \<times> schema \<Rightarrow> val \<times> dstate \<Rightarrow> (val \<times> dstate) outcome" where
  "denormalizeImmutable_step unvisit = (\<lambda>(key, keySchema) (object, st).
     if immutable_has (d_heap st) object key then
       bind (unvisit (immutable_get (d_heap st) object key) keySchema st)
         (\<lambda>(v, st'). case immutable_set (d_heap st') object key v of
                          (object', h') \<Rightarrow> Returned (object', st'\<lparr>d_heap := h'\<rparr>))
     else Returned (object, st))"

definition denormalizeImmutable :: "UnvisitFn \<Rightarrow> SchemaDefinition \<Rightarrow> val \<Rightarrow> dstate \<Rightarrow> (val \<times> dstate) outcome" where
  "denormalizeImmutable unvisit schema input st =
     forEach (denormalizeImmutable_step unvisit) schema (input, st)"

subsection \<open>Object shorthand and the Object schema\<close>

definition ObjectUtils_denormalize_field :: "UnvisitFn \<Rightarrow> val \<Rightarrow> string \<times> schema \<Rightarrow> dstate \<Rightarrow> dstate outcome" where
  "ObjectUtils_denormalize_field unvisit object = (\<lambda>(schemaKey, keySchema) st.
     if \<not> nullish (get_prop (d_heap st) object schemaKey) then
       bind (unvisit (get_prop (d_heap st) object schemaKey) keySchema st)
         (\<lambda>(v, st'). Returned (st'\<lparr>d_heap := set_prop (d_heap st') object schemaKey v\<rparr>))
     else Returned st)"

definition ObjectUtils_denormalize :: "UnvisitFn \<Rightarrow> schema \<Rightarrow> val \<Rightarrow> dstate \<Rightarrow> (val \<times> dstate) outcome" where
  "ObjectUtils_denormalize unvisit schema input st =
     (if isImmutable (d_heap st) input then
        bind (lift (schema_keys schema)) (\<lambda>d. denormalizeImmutable unvisit d input st)
      else
        (case alloc (PlainObj (own_props (d_heap st) input)) (d_heap st) of
           (object, h') \<Rightarrow>
             bind (lift (schema_keys schema)) (\<lambda>d.
               bind (forEach (ObjectUtils_denormalize_field unvisit object) d (st\<lparr>d_heap := h'\<rparr>))
                 (\<lambda>st'. Returned (object, st')))))"

subsection \<open>Entity\<close>

definition Entity_denormalize_field :: "UnvisitFn \<Rightarrow> val \<Rightarrow> string \<times> schema \<Rightarrow> dstate \<Rightarrow> dstate outcome" where
  "Entity_denormalize_field unvisit typedEntity = (\<lambda>(schemaKey, nestedSchema) st.
     if hasOwn (d_heap st) typedEntity schemaKey then
       bind (unvisit (get_prop (d_heap st) typedEntity schemaKey) nestedSchema st)
         (\<lambda>(v, st'). Returned (st'\<lparr>d_heap := set_prop (d_heap st') typedEntity schemaKey v\<rparr>))
     else Returned st)"

text \<open>On a plain object \<^verbatim>\<open>Entity.denormalize\<close> mutates its argument in place.\<close>

definition Entity_denormalize :: "UnvisitFn \<Rightarrow> EntitySchema \<Rightarrow> val \<Rightarrow> dstate \<Rightarrow> (val \<times> dstate) outcome" where
  "Entity_denormalize unvisit e entity st =
     (if isImmutable (d_heap st) entity then denormalizeImmutable unvisit (Entity_schema e) entity st
      else
        bind (forEach (Entity_denormalize_field unvisit entity) (Entity_schema e) st)
          (\<lambda>st'. Returned (entity, st')))"

definition getEntities :: "EntitiesMap \<Rightarrow> heap \<Rightarrow> val \<Rightarrow> EntitySchema \<Rightarrow> val" where
  "getEntities ents h entityOrId schema =
     (if typeof entityOrId = ''object'' then entityOrId
      else
        (case map_of ents (Entity_key schema) of
           None \<Rightarrow> Undefined
         | Some entityStore \<Rightarrow>
             (case map_of entityStore (ToString h entityOrId) of
                None \<Rightarrow> Undefined
              | Some entity \<Rightarrow> entity)))"

definition fallback :: "EntitySchema \<Rightarrow> val \<Rightarrow> heap \<Rightarrow> val \<times> heap" where
  "fallback e ident h =
     (case fallbackStrategy e ident of
        None \<Rightarrow> (Undefined, h)
      | Some fs \<Rightarrow> alloc (PlainObj fs) h)"

definition cache_lookup :: "(string \<times> props) list \<Rightarrow> string \<Rightarrow> string \<Rightarrow> val option" where
  "cache_lookup c key ident = (case map_of c key of None \<Rightarrow> None | Some m \<Rightarrow> map_of m ident)"

definition cache_store :: "string \<Rightarrow> string \<Rightarrow> val \<Rightarrow> (string \<times> props) list \<Rightarrow> (string \<times> props) list" where
  "cache_store key ident v c =
     AList.update key (AList.update ident v (case map_of c key of None \<Rightarrow> [] | Some m \<Rightarrow> m)) c"

definition cache_init :: "string \<Rightarrow> (string \<times> props) list \<Rightarrow> (string \<times> props) list" where
  "cache_init key c = (if map_of c key = None then AList.update key [] c else c)"

text \<open>The template literal \<^verbatim>\<open>`${schema.key}:${id}`\<close>.\<close>

definition cacheKey_of :: "string \<Rightarrow> string \<Rightarrow> string" where
  "cacheKey_of key idKey = key @ '':'' @ idKey"

text \<open>The stored record for (id, schema), or else the fallback strategy's substitute.\<close>

definition lookup_entity :: "EntitiesMap \<Rightarrow> EntitySchema \<Rightarrow> val \<Rightarrow> heap \<Rightarrow> val \<times> heap" where
  "lookup_entity ents schema ident h =
     (let entity = getEntities ents h ident schema
      in if entity = Undefined then fallback schema ident h else (entity, h))"

text \<open>\<^verbatim>\<open>isImmutable(entity) ? entity : { ...entity }\<close>.\<close>

definition copy_entity :: "heap \<Rightarrow> val \<Rightarrow> val \<times> heap" where
  "copy_entity h entity =
     (if isImmutable h entity then (entity, h) else alloc (PlainObj (own_props h entity)) h)"

definition unvisitEntity :: "UnvisitFn \<Rightarrow> EntitiesMap \<Rightarrow> val \<Rightarrow> EntitySchema \<Rightarrow> dstate \<Rightarrow> (val \<times> dstate) outcome" where
  "unvisitEntity unvisit ents ident schema st =
     (case lookup_entity ents schema ident (d_heap st) of
        (entity, h1) \<Rightarrow>
          if typeof entity \<noteq> ''object'' \<or> entity = Null then Returned (entity, st\<lparr>d_heap := h1\<rparr>)
          else
            (let key = Entity_key schema;
                 idKey = ToString h1 ident;
                 st1 = st\<lparr>d_heap := h1, cache := cache_init key (cache st)\<rparr>;
                 cacheKey = cacheKey_of key idKey
             in if cacheKey \<in> inProgress st1 then
                  (if isImmutable h1 entity then Threw (CircularReference key idKey)
                   else Returned (case cache_lookup (cache st1) key idKey of
                                    None \<Rightarrow> Undefined | Some v \<Rightarrow> v, st1))
                else
                  (case cache_lookup (cache st1) key idKey of
                     Some v \<Rightarrow> Returned (v, st1)
                   | None \<Rightarrow>
                       (case copy_entity h1 entity of
                          (entityCopy, h2) \<Rightarrow>
                            (let st2 = st1\<lparr>d_heap := h2, inProgress := insert cacheKey (inProgress st1),
                                           cache := cache_store key idKey entityCopy (cache st1)\<rparr>
                             in bind (Entity_denormalize unvisit schema entityCopy st2)
                                  (\<lambda>(v, st3).
                                     Returned (v, st3\<lparr>cache := cache_store key idKey v (cache st3),
                                                       inProgress := inProgress st3 - {cacheKey}\<rparr>)))))))"

subsection \<open>Polymorphic containers\<close>

definition denormalizeValue :: "UnvisitFn \<Rightarrow> PolymorphicSchema \<Rightarrow> val \<Rightarrow> dstate \<Rightarrow> (val \<times> dstate) outcome" where
  "denormalizeValue unvisit p value st =
     (let h = d_heap st;
          schemaKey = (if isImmutable h value then immutable_get h value ''schema''
                       else get_prop_opt h value ''schema'')
      in if \<not> isSingleSchema p \<and> falsy schemaKey then Returned (value, st)
         else
           (let ident = (if isSingleSchema p then Undefined
                         else if isImmutable h value then immutable_get h value ''id''
                         else get_prop_opt h value ''id'');
                schema = (if isSingleSchema p then Polymorphic_schema p
                          else schema_property (Polymorphic_schema p) (ToString h schemaKey))
            in unvisit (if nullish ident then value else ident) schema st))"

definition ArraySchema_denormalize :: "UnvisitFn \<Rightarrow> PolymorphicSchema \<Rightarrow> val \<Rightarrow> dstate \<Rightarrow> (val \<times> dstate) outcome" where
  "ArraySchema_denormalize unvisit p input st = map_values (denormalizeValue unvisit p) input st"

definition ValuesSchema_denormalize_step ::
  "UnvisitFn \<Rightarrow> PolymorphicSchema \<Rightarrow> val \<Rightarrow> string \<Rightarrow> props \<times> dstate \<Rightarrow> (props \<times> dstate) outcome" where
  "ValuesSchema_denormalize_step unvisit p typedInput inputKey = (\<lambda>(output, st).
     bind (denormalizeValue unvisit p (get_prop (d_heap st) typedInput inputKey) st)
       (\<lambda>(v, st'). Returned (AList.update inputKey v output, st')))"

definition ValuesSchema_denormalize :: "UnvisitFn \<Rightarrow> PolymorphicSchema \<Rightarrow> val \<Rightarrow> dstate \<Rightarrow> (val \<times> dstate) outcome" where
  "ValuesSchema_denormalize unvisit p input st =
     bind (forEach (ValuesSchema_denormalize_step unvisit p input)
             (map fst (own_props (d_heap st) input)) ([], st))
       (\<lambda>(output, st'). case alloc (PlainObj output) (d_heap st') of
                            (r, h') \<Rightarrow> Returned (r, st'\<lparr>d_heap := h'\<rparr>))"

definition UnionSchema_denormalize :: "UnvisitFn \<Rightarrow> PolymorphicSchema \<Rightarrow> val \<Rightarrow> dstate \<Rightarrow> (val \<times> dstate) outcome" where
  "UnionSchema_denormalize unvisit p input st = denormalizeValue unvisit p input st"

subsection \<open>The eager unvisitor and \<^verbatim>\<open>denormalize\<close>\<close>

fun unvisit :: "nat \<Rightarrow> classes \<Rightarrow> EntitiesMap \<Rightarrow> UnvisitFn" where
  "unvisit 0 T ents input schema st = Diverged"
| "unvisit (Suc n) T ents input schema st =
     (case schema of
        ArrayShorthand d \<Rightarrow> ArrayUtils_denormalize (unvisit n T ents) d input st
      | SchemaClass c \<Rightarrow>
          (if input = Undefined \<or> input = Null then Returned (input, st)
           else
             (case T c of
                Entity e \<Rightarrow> unvisitEntity (unvisit n T ents) ents input e st
              | ObjectSchema d \<Rightarrow> ObjectUtils_denormalize (unvisit n T ents) (ObjectShorthand d) input st
              | ArraySchema p \<Rightarrow> ArraySchema_denormalize (unvisit n T ents) p input st
              | ValuesSchema p \<Rightarrow> ValuesSchema_denormalize (unvisit n T ents) p input st
              | UnionSchema p \<Rightarrow> UnionSchema_denormalize (unvisit n T ents) p input st))
      | _ \<Rightarrow> ObjectUtils_denormalize (unvisit n T ents) schema input st)"

definition initial_dstate :: "heap \<Rightarrow> dstate" where
  "initial_dstate h = \<lparr> d_heap = h, cache = [], inProgress = {} \<rparr>"

text \<open>
  \<^verbatim>\<open>denormalize(input, schema, entities)\<close> with the default eager strategy
  (the \<^verbatim>\<open>createUnvisit\<close> option replaces the engine and is not modelled).
\<close>

definition denormalize :: "nat \<Rightarrow> classes \<Rightarrow> heap \<Rightarrow> val \<Rightarrow> schema \<Rightarrow> EntitiesMap \<Rightarrow> (val \<times> dstate) outcome" where
  "denormalize fuel T h input schema ents =
     (if input = Undefined then Returned (input, initial_dstate h)
      else unvisit fuel T ents input schema (initial_dstate h))"

section \<open>Example inputs\<close>

text \<open>
  Two distinct objects with the same id, in one list:
  \<^verbatim>\<open>[{id: 1, name: 'foo'}, {id: 1, name: 'bar', alias: 'bar'}]\<close>.
\<close>

definition tacos_classes :: classes where
  "tacos_classes c = Entity (new_Entity ''tacos'' [])"

definition colliding_list :: heap where
  "colliding_list =
     [ArrayObj [Ref 1, Ref 2],
      PlainObj [(''id'', Num 1), (''name'', Str ''foo'')],
      PlainObj [(''id'', Num 1), (''name'', Str ''bar''), (''alias'', Str ''bar'')]]"

text \<open>
  A user schema whose \<^verbatim>\<open>friends\<close> field is a list of users
  (\<^verbatim>\<open>user.define({ friends: [user] })\<close>), and a user whose friends array holds
  the user object itself.
\<close>

definition users_classes :: classes where
  "users_classes c = Entity (new_Entity ''users'' [(''friends'', ArrayShorthand [SchemaClass 0])])"

definition cyclic_user :: heap where
  "cyclic_user = [PlainObj [(''id'', Num 123), (''friends'', Ref 1)], ArrayObj [Ref 0]]"

text \<open>
  Users, groups, the union \<^verbatim>\<open>new Union({user, group}, 'type')\<close> and the
  single-schema array \<^verbatim>\<open>new Array(user)\<close>; the inputs
  \<^verbatim>\<open>{id: 1, type: 'user'}\<close> and \<^verbatim>\<open>[{id: 1, type: 'user'}]\<close>.
\<close>

definition union_classes :: classes where
  "union_classes c =
     (if c = 0 then Entity (new_Entity ''users'' [])
      else if c = 1 then Entity (new_Entity ''groups'' [])
      else if c = 2 then UnionSchema (new_Polymorphic
             (ObjectShorthand [(''user'', SchemaClass 0), (''group'', SchemaClass 1)])
             (Some (AttrName ''type'')))
      else ArraySchema (new_Polymorphic (SchemaClass 0) None))"

definition union_input :: heap where
  "union_input = [PlainObj [(''id'', Num 1), (''type'', Str ''user'')]]"

definition single_input :: heap where
  "single_input = [ArrayObj [Ref 1], PlainObj [(''id'', Num 1), (''type'', Str ''user'')]]"

text \<open>An array where an entity is expected, at the root and inside a user's friends.\<close>

definition array_for_entity :: heap where
  "array_for_entity = [ArrayObj []]"

definition nested_array_for_entity :: heap where
  "nested_array_for_entity =
     [PlainObj [(''id'', Num 1), (''friends'', Ref 1)], ArrayObj [Ref 2], ArrayObj []]"

text \<open>
  A union whose discriminator function returns the empty string for every element:
  once over a mapping that has a schema under the empty key, once over the usual
  mapping that has none.
\<close>

definition falsy_key_classes :: classes where
  "falsy_key_classes c =
     (if c = 0 then Entity (new_Entity ''users'' [])
      else UnionSchema (new_Polymorphic (ObjectShorthand [([], SchemaClass 0)])
             (Some (AttrFn (\<lambda>h value parent key. Str [])))))"

definition undecided :: PolymorphicSchema where
  "undecided = new_Polymorphic (ObjectShorthand [(''users'', SchemaClass 0)])
                 (Some (AttrFn (\<lambda>h value parent key. Str [])))"

text \<open>
  A union whose discriminator function answers \<^verbatim>\<open>constructor\<close>, a key that its
  mapping does not own.
\<close>

definition by_constructor :: PolymorphicSchema where
  "by_constructor = new_Polymorphic (ObjectShorthand [(''users'', SchemaClass 0)])
                      (Some (AttrFn (\<lambda>h value parent key. Str ''constructor'')))"

definition user_one :: heap where
  "user_one = [PlainObj [(''id'', Num 1)]]"

definition unknown_things :: heap where
  "unknown_things = [ArrayObj [Ref 1], PlainObj [(''id'', Num 3), (''notdefined'', Str ''yep'')]]"

section \<open>Predicates used by the properties\<close>

text \<open>A visitor that never throws the error of \<^verbatim>\<open>normalize\<close>'s own input check.\<close>

definition never_unexpected :: "VisitFn \<Rightarrow> bool" where
  "never_unexpected vis = (\<forall>v p k s st kind. vis v p k s st \<noteq> Threw (UnexpectedInput kind))"

text \<open>
  A primitive that prints, as a property key or in a template literal, the way
  \<open>string_of_prim\<close> prints it: the model's numbers are integers, and JavaScript
  prints the integers up to \<^verbatim>\<open>Number.MAX_SAFE_INTEGER\<close> digit by digit.
\<close>

definition key_like :: "val \<Rightarrow> bool" where
  "key_like v = (case v of Ref a \<Rightarrow> False | Num n \<Rightarrow> \<bar>n\<bar> \<le> 9007199254740991 | _ \<Rightarrow> True)"

text \<open>
  The discriminator function of a polymorphic container selects no schema for an element:
  it returns \<^verbatim>\<open>false\<close>, or a primitive key under which the schema mapping, a bare
  object, has \<^verbatim>\<open>undefined\<close> (the mapping does not have the key, and the key names
  no member of \<^verbatim>\<open>Object.prototype\<close> either). \<open>visited_value\<close> is a value
  that the visitor hands to a schema class: an object that is no immutable-style container.
\<close>

definition selects_no_schema :: "PolymorphicSchema \<Rightarrow> heap \<Rightarrow> val \<Rightarrow> val \<Rightarrow> val \<Rightarrow> bool" where
  "selects_no_schema p h value parent key =
     (case schemaAttribute p of
        Some (AttrFn f) \<Rightarrow>
          f h value parent key = Bool False
          \<or> (case Polymorphic_schema p of
                ObjectShorthand m \<Rightarrow>
                  key_like (f h value parent key)
                  \<and> is_undefined_schema
                       (schema_property (ObjectShorthand m) (string_of_prim (f h value parent key)))
              | _ \<Rightarrow> False)
      | _ \<Rightarrow> False)"

definition visited_value :: "heap \<Rightarrow> val \<Rightarrow> bool" where
  "visited_value h v = (typeof v = ''object'' \<and> v \<noteq> Null \<and> \<not> isImmutable h v)"

text \<open>
  The store of the cyclic example: \<^verbatim>\<open>{users: {123: {id: 123, friends: [123]}}}\<close>,
  with the record at address 0.
\<close>

definition stored_cyclic_user :: heap where
  "stored_cyclic_user = [PlainObj [(''id'', Num 123), (''friends'', Ref 1)], ArrayObj [Num 123]]"

section \<open>Frames, later states and deep copies\<close>

text \<open>
  \<open>later L s s'\<close>: the state \<open>s'\<close> comes later than \<open>s\<close> in one
  denormalize call, as far as the objects below address \<open>L\<close> and the cache are
  concerned: the heap has only grown, every object below \<open>L\<close> is what it was, and
  every cache entry of \<open>s\<close> is still there with the same value. \<open>keeps\<close> adds
  that the in-progress set is the same, which holds between the start and the return of
  a call; \<open>preserving\<close> says so of an unvisit function.
\<close>

definition later :: "nat \<Rightarrow> dstate \<Rightarrow> dstate \<Rightarrow> bool" where
  "later L s s' =
     (L \<le> length (d_heap s) \<and> length (d_heap s) \<le> length (d_heap s')
      \<and> (\<forall>a<L. d_heap s' ! a = d_heap s ! a)
      \<and> (\<forall>k i v. cache_lookup (cache s) k i = Some v \<longrightarrow> cache_lookup (cache s') k i = Some v))"

definition keeps :: "nat \<Rightarrow> dstate \<Rightarrow> dstate \<Rightarrow> bool" where
  "keeps L s s' = (later L s s' \<and> inProgress s' = inProgress s)"

definition preserving :: "UnvisitFn \<Rightarrow> bool" where
  "preserving unv =
     (\<forall>input schema s v s'. unv input schema s = Returned (v, s') \<longrightarrow> keeps (length (d_heap s)) s s')"

text \<open>
  The value of a reference as a finite tree, to a given depth. Two values deep-equal each
  other when they have the same tree; a dangling reference and a structure deeper than
  the fuel (a cyclic one, at every fuel) have none.
\<close>

datatype tree = TPrim val | TObject "(string \<times> tree) list" | TArray "tree list"
  | TImmutable "(string \<times> tree) list"

fun traverse :: "('a \<Rightarrow> 'b option) \<Rightarrow> 'a list \<Rightarrow> 'b list option" where
  "traverse f [] = Some []"
| "traverse f (x # xs) =
     (case f x of None \<Rightarrow> None
      | Some y \<Rightarrow> (case traverse f xs of None \<Rightarrow> None | Some ys \<Rightarrow> Some (y # ys)))"

definition traverse_props :: "(val \<Rightarrow> tree option) \<Rightarrow> props \<Rightarrow> (string \<times> tree) list option" where
  "traverse_props f fs = traverse (\<lambda>(k, v). case f v of None \<Rightarrow> None | Some t \<Rightarrow> Some (k, t)) fs"

fun snapshot :: "nat \<Rightarrow> heap \<Rightarrow> val \<Rightarrow> tree option" where
  "snapshot n h (Ref a) =
     (case n of
        0 \<Rightarrow> None
      | Suc m \<Rightarrow>
          (if a < length h then
             (case h ! a of
                PlainObj fs \<Rightarrow> map_option TObject (traverse_props (snapshot m h) fs)
              | ArrayObj vs \<Rightarrow> map_option TArray (traverse (snapshot m h) vs)
              | ImmutableObj fs \<Rightarrow> map_option TImmutable (traverse_props (snapshot m h) fs))
           else None))"
| "snapshot n h v = Some (TPrim v)"

fun refs_of :: "obj \<Rightarrow> val list" where
  "refs_of (PlainObj fs) = map snd fs"
| "refs_of (ArrayObj vs) = vs"
| "refs_of (ImmutableObj fs) = map snd fs"

definition within :: "nat \<Rightarrow> val \<Rightarrow> bool" where
  "within L v = (case v of Ref a \<Rightarrow> a < L | _ \<Rightarrow> True)"

definition heap_closed :: "heap \<Rightarrow> bool" where
  "heap_closed h = (\<forall>a<length h. \<forall>v \<in> set (refs_of (h ! a)). within (length h) v)"




section \<open>The errors of denormalization\<close>




text \<open>
  A tag whose schema key the union's mapping does not have:
  \<^verbatim>\<open>{id: 1, schema: 'nope'}\<close>.
\<close>

definition unmapped_tag :: heap where
  "unmapped_tag = [PlainObj [(''id'', Num 1), (''schema'', Str ''nope'')]]"

text \<open>
  Users with an avatar, where the key of the photo schema is \<^verbatim>\<open>user:photo\<close>; a
  store with the user \<^verbatim>\<open>photo:1\<close>, whose avatar is the photo \<^verbatim>\<open>1\<close>, and
  with that photo; the normalized value \<^verbatim>\<open>{owner: 'photo:1', cover: '1'}\<close>, which
  refers to the photo a second time. The cache keys of the user and of the photo are the
  same string, \<^verbatim>\<open>user:photo:1\<close>. In \<open>album_classes\<close> the photo schema has
  the key \<^verbatim>\<open>photo\<close> instead.
\<close>

definition photo_classes :: classes where
  "photo_classes c =
     (if c = 0 then Entity (new_Entity ''user'' [(''avatar'', SchemaClass 1)])
      else Entity (new_Entity ''user:photo'' []))"

definition album_classes :: classes where
  "album_classes c =
     (if c = 0 then Entity (new_Entity ''user'' [(''avatar'', SchemaClass 1)])
      else Entity (new_Entity ''photo'' []))"

definition photo_store :: heap where
  "photo_store =
     [PlainObj [(''id'', Str ''photo:1''), (''avatar'', Str ''1'')],
      PlainObj [(''id'', Str ''1''), (''url'', Str ''one.png'')],
      PlainObj [(''owner'', Str ''photo:1''), (''cover'', Str ''1'')]]"

definition owner_and_cover :: schema where
  "owner_and_cover = ObjectShorthand [(''owner'', SchemaClass 0), (''cover'', SchemaClass 1)]"


section \<open>Conforming inputs and what a store denotes\<close>


text \<open>
  The record that a two-level store holds for an entity type and an id key.
\<close>

definition entity_at :: "EntitiesMap \<Rightarrow> string \<Rightarrow> string \<Rightarrow> val option" where
  "entity_at E key ident = (case map_of E key of None \<Rightarrow> None | Some bucket \<Rightarrow> map_of bucket ident)"








text \<open>
  The contract of a visit function at depth \<open>i\<close>: on a conforming input whose
  entities are distinct and not yet in the store or in the visited list, it returns a
  value that denotes the input's tree, changes no object that existed, and changes the
  store and the visited lists only for the entities of the input.
\<close>

definition fresh :: "nstate \<Rightarrow> (string \<times> string) set \<Rightarrow> bool" where
  "fresh st I = (\<forall>(key, i) \<in> I. entity_at (entities st) key i = None \<and> visited_list st key i = [])"



text \<open>
  The contract of an unvisit function at depth \<open>i\<close>: on a value that denotes a
  conforming tree whose entities have distinct cache keys, none of them cached or in
  progress, it returns a value built as that tree, changes no object that existed, leaves
  the in-progress set as it was, and changes the cache only for the entities of the tree.
\<close>

definition dfresh :: "dstate \<Rightarrow> (string \<times> string) set \<Rightarrow> bool" where
  "dfresh s I = (\<forall>(key, i) \<in> I. cache_lookup (cache s) key i = None \<and> cacheKey_of key i \<notin> inProgress s)"

definition cache_outside :: "(string \<times> string) set \<Rightarrow> dstate \<Rightarrow> dstate \<Rightarrow> bool" where
  "cache_outside I s s' = (\<forall>key i. (key, i) \<notin> I \<longrightarrow> cache_lookup (cache s') key i = cache_lookup (cache s) key i)"




section \<open>Properties\<close>

subsection \<open>The default merge\<close>

lemma map_of_fold_update:
  "distinct (map fst b) \<Longrightarrow>
   map_of (fold (\<lambda>(k, v). AList.update k v) b a) k =
     (case map_of b k of Some v \<Rightarrow> Some v | None \<Rightarrow> map_of a k)"
proof (induction b arbitrary: a)
  case Nil
  show ?case by simp
next
  case (Cons x xs)
  obtain k' v' where x: "x = (k', v')" by (cases x)
  from Cons.prems have d: "distinct (map fst xs)" and nk: "k' \<notin> fst ` set xs"
    by (auto simp: x)
  from nk have "map_of xs k' = None"
    by (simp add: map_of_eq_None_iff)
  then show ?case
    using Cons.IH [OF d, of "AList.update k' v' a"]
    by (auto simp: x update_conv' split: option.splits)
qed

text \<open>
  C4. Normalizing the list \<^verbatim>\<open>[{id:1,name:'foo'}, {id:1,name:'bar',alias:'bar'}]\<close>
  through an entity schema with the default merge strategy leaves exactly one bucket with
  exactly one record, \<^verbatim>\<open>{id:1,name:'bar',alias:'bar'}\<close>. The default merge
  strategy of a new Entity is the shallow union of the two records' fields in which the
  incoming record's value wins on every key both have (records have distinct keys).
\<close>

theorem default_merge_later_wins:
  "(case normalize' 3 tacos_classes colliding_list (Ref 0) (ArrayShorthand [SchemaClass 0]) of
      Returned (result, st) \<Rightarrow>
        (case entities st of
           [(key, [(ident, record)])] \<Rightarrow>
             key = ''tacos'' \<and> ident = ''1'' \<and>
             own_props (n_heap st) record = [(''id'', Num 1), (''name'', Str ''bar''), (''alias'', Str ''bar'')]
         | _ \<Rightarrow> False)
    | _ \<Rightarrow> False)
   \<and> mergeStrategy (new_Entity key definition) = default_merge
   \<and> (distinct (map fst incoming) \<longrightarrow>
        map_of (default_merge existing incoming) k =
          (case map_of incoming k of Some v \<Rightarrow> Some v | None \<Rightarrow> map_of existing k))"
proof -
  have "case normalize' 3 tacos_classes colliding_list (Ref 0) (ArrayShorthand [SchemaClass 0]) of
      Returned (result, st) \<Rightarrow>
        (case entities st of
           [(key, [(ident, record)])] \<Rightarrow>
             key = ''tacos'' \<and> ident = ''1'' \<and>
             own_props (n_heap st) record = [(''id'', Num 1), (''name'', Str ''bar''), (''alias'', Str ''bar'')]
         | _ \<Rightarrow> False)
    | _ \<Rightarrow> False"
    by code_simp
  then show ?thesis
    by (simp add: new_Entity_def default_merge_def map_of_fold_update)
qed

theorem default_merge_later_wins_witness:
  "distinct (map fst [(''id'', Num 1), (''name'', Str ''bar''), (''alias'', Str ''bar'')])
   \<and> map_of (default_merge [(''id'', Num 1), (''name'', Str ''foo'')]
                [(''id'', Num 1), (''name'', Str ''bar''), (''alias'', Str ''bar'')]) ''name''
       = Some (Str ''bar'')"
  using default_merge_later_wins
    [where incoming = "[(''id'', Num 1), (''name'', Str ''bar''), (''alias'', Str ''bar'')]"
       and existing = "[(''id'', Num 1), (''name'', Str ''foo'')]" and k = "''name''"]
  by simp

subsection \<open>Unfolding the engine on concrete inputs\<close>

lemma string_of_nat_1: "string_of_nat 1 = ''1''"
  by code_simp

lemma string_of_nat_123: "string_of_nat 123 = ''123''"
  by code_simp

lemmas heap_simps = obj_at_def alloc_def isArray_def isImmutable_def own_props_def hasOwn_def
  get_prop_def get_prop_opt_def set_prop_def delete_prop_def ToString_def string_of_int_def
  getValues_def array_elements_def immutable_entries_def immutable_has_def immutable_get_def
  immutable_set_def

lemmas normalize_simps = normalize'_def initial_nstate_def Entity_normalize_def validate_def
  getId_def visited_list_def owns_visited_list_def in_visited_def object_prototype_keys_def
  mark_visited_def new_Entity_def default_process_def
  Entity_normalize_field_def addEntities_def ArrayUtils_normalize_def validateSchema_def
  ObjectUtils_normalize_def ObjectUtils_normalize_field_def new_Polymorphic_def isSingleSchema_def
  getSchemaAttribute_def inferSchema_def normalizeValue_def key_or_empty_def
  ArraySchema_normalize_def ValuesSchema_normalize_def ValuesSchema_normalize_step_def
  UnionSchema_normalize_def Let_def

lemmas denormalize_simps = denormalize_def initial_dstate_def map_values_def ArrayUtils_denormalize_def
  denormalizeImmutable_def denormalizeImmutable_step_def ObjectUtils_denormalize_def
  ObjectUtils_denormalize_field_def Entity_denormalize_def Entity_denormalize_field_def
  getEntities_def fallback_def default_fallback_def cache_lookup_def cache_store_def cache_init_def
  unvisitEntity_def lookup_entity_def copy_entity_def cacheKey_of_def denormalizeValue_def ArraySchema_denormalize_def ValuesSchema_denormalize_def
  ValuesSchema_denormalize_step_def UnionSchema_denormalize_def validateSchema_def
  new_Entity_def new_Polymorphic_def isSingleSchema_def Let_def

lemma bind_Returned: "bind m Returned = m"
  by (cases m) auto

subsection \<open>Self-referential input\<close>

lemma mark_visited_same:
  "l = visited_list st entityType ident \<Longrightarrow> l \<noteq> [] \<Longrightarrow> mark_visited entityType ident l st = st"
  by (auto simp: mark_visited_def visited_list_def update_triv split: option.splits)

lemma Entity_normalize_revisit:
  assumes "validate e (n_heap st) input = Inr input"
    and "input \<in> set (visited_list st (Entity_key e)
                        (ToString (n_heap st) (getId e (n_heap st) input parent key)))"
  shows "Entity_normalize vis e input parent key st = Returned (getId e (n_heap st) input parent key, st)"
proof -
  let ?i = "ToString (n_heap st) (getId e (n_heap st) input parent key)"
  let ?l = "visited_list st (Entity_key e) ?i"
  from assms(2) have "?l \<noteq> []" by auto
  then have "mark_visited (Entity_key e) ?i ?l st = st"
    by (simp add: mark_visited_same)
  moreover from \<open>?l \<noteq> []\<close> have "owns_visited_list st (Entity_key e) ?i"
    by (auto simp: visited_list_def owns_visited_list_def split: option.splits)
  ultimately show ?thesis
    using assms by (simp add: Entity_normalize_def Let_def)
qed

lemma cyclic_user_run:
  "normalize' (Suc (Suc (Suc n))) users_classes cyclic_user (Ref 0) (SchemaClass 0) =
     Returned (Num 123,
       \<lparr> n_heap = cyclic_user @ [PlainObj [(''id'', Num 123), (''friends'', Ref 3)], ArrayObj [Num 123]],
         entities = [(''users'', [(''123'', Ref 2)])],
         visitedEntities = [(''users'', [(''123'', [Ref 0])])] \<rparr>)"
  by (simp add: users_classes_def cyclic_user_def normalize_simps heap_simps string_of_nat_123)

text \<open>
  C3. Normalizing the user whose \<^verbatim>\<open>friends\<close> array contains the very same
  object returns with every fuel of at least three (the recursion is three calls deep and
  then stops), with result \<^verbatim>\<open>123\<close> and a store whose only record,
  \<^verbatim>\<open>users[123]\<close>, has \<^verbatim>\<open>friends\<close> equal to \<^verbatim>\<open>[123]\<close>. In
  general, when Entity normalization meets a valid input whose reference is already in
  the visited list of its (type, id), it returns the id at once and leaves the state
  (heap, store, visited lists) as it was, without calling the visitor.
\<close>

theorem normalize_self_reference:
  "(case normalize' (n + 3) users_classes cyclic_user (Ref 0) (SchemaClass 0) of
      Returned (result, st) \<Rightarrow>
        result = Num 123
        \<and> (case entities st of
             [(key, [(ident, record)])] \<Rightarrow>
               key = ''users'' \<and> ident = ''123''
               \<and> array_elements (n_heap st) (get_prop (n_heap st) record ''friends'') = [Num 123]
           | _ \<Rightarrow> False)
    | _ \<Rightarrow> False)
   \<and> (validate e (n_heap st) input = Inr input
        \<and> input \<in> set (visited_list st (Entity_key e)
                          (ToString (n_heap st) (getId e (n_heap st) input parent key)))
      \<longrightarrow> Entity_normalize vis e input parent key st =
            Returned (getId e (n_heap st) input parent key, st))"
proof -
  have "normalize' (n + 3) users_classes cyclic_user (Ref 0) (SchemaClass 0) =
     Returned (Num 123,
       \<lparr> n_heap = cyclic_user @ [PlainObj [(''id'', Num 123), (''friends'', Ref 3)], ArrayObj [Num 123]],
         entities = [(''users'', [(''123'', Ref 2)])],
         visitedEntities = [(''users'', [(''123'', [Ref 0])])] \<rparr>)"
    using cyclic_user_run [of n] by (simp add: numeral_3_eq_3)
  then show ?thesis
    by (simp add: Entity_normalize_revisit cyclic_user_def heap_simps)
qed

theorem normalize_self_reference_witness:
  "validate (new_Entity ''users'' [(''friends'', ArrayShorthand [SchemaClass 0])]) cyclic_user (Ref 0)
     = Inr (Ref 0)
   \<and> Ref 0 \<in> set (visited_list
          \<lparr> n_heap = cyclic_user, entities = [], visitedEntities = [(''users'', [(''123'', [Ref 0])])] \<rparr>
          ''users'' ''123'')
   \<and> Entity_normalize (visit 0 users_classes)
        (new_Entity ''users'' [(''friends'', ArrayShorthand [SchemaClass 0])]) (Ref 0) (Ref 1) (Str ''friends'')
        \<lparr> n_heap = cyclic_user, entities = [], visitedEntities = [(''users'', [(''123'', [Ref 0])])] \<rparr>
      = Returned (Num 123,
          \<lparr> n_heap = cyclic_user, entities = [], visitedEntities = [(''users'', [(''123'', [Ref 0])])] \<rparr>)"
  using normalize_self_reference
    [where e = "new_Entity ''users'' [(''friends'', ArrayShorthand [SchemaClass 0])]"
       and st = "\<lparr> n_heap = cyclic_user, entities = [], visitedEntities = [(''users'', [(''123'', [Ref 0])])] \<rparr>"
       and input = "Ref 0" and parent = "Ref 1" and key = "Str ''friends''"
       and vis = "visit 0 users_classes"]
  by (simp add: cyclic_user_def validate_def getId_def visited_list_def new_Entity_def heap_simps
      string_of_nat_123)

subsection \<open>Polymorphic round trip\<close>

lemma union_normalize_run:
  "normalize' (Suc (Suc n)) union_classes union_input (Ref 0) (SchemaClass 2) =
     Returned (Ref 2,
       \<lparr> n_heap = union_input @ [PlainObj [(''id'', Num 1), (''type'', Str ''user'')],
                                  PlainObj [(''id'', Num 1), (''schema'', Str ''user'')]],
         entities = [(''users'', [(''1'', Ref 1)])],
         visitedEntities = [(''users'', [(''1'', [Ref 0])])] \<rparr>)"
  by (simp add: union_classes_def union_input_def normalize_simps heap_simps string_of_nat_1)

lemma union_denormalize_run:
  "denormalize (Suc (Suc n)) union_classes
      (union_input @ [PlainObj [(''id'', Num 1), (''type'', Str ''user'')],
                      PlainObj [(''id'', Num 1), (''schema'', Str ''user'')]])
      (Ref 2) (SchemaClass 2) [(''users'', [(''1'', Ref 1)])] =
     Returned (Ref 3,
       \<lparr> d_heap = union_input @ [PlainObj [(''id'', Num 1), (''type'', Str ''user'')],
                                  PlainObj [(''id'', Num 1), (''schema'', Str ''user'')],
                                  PlainObj [(''id'', Num 1), (''type'', Str ''user'')]],
         cache = [(''users'', [(''1'', Ref 3)])],
         inProgress = {} \<rparr>)"
  by (simp add: union_classes_def union_input_def denormalize_simps heap_simps string_of_nat_1)

lemma single_normalize_run:
  "normalize' (Suc (Suc n)) union_classes single_input (Ref 0) (SchemaClass 3) =
     Returned (Ref 3,
       \<lparr> n_heap = single_input @ [PlainObj [(''id'', Num 1), (''type'', Str ''user'')], ArrayObj [Num 1]],
         entities = [(''users'', [(''1'', Ref 2)])],
         visitedEntities = [(''users'', [(''1'', [Ref 1])])] \<rparr>)"
  by (simp add: union_classes_def single_input_def normalize_simps heap_simps string_of_nat_1)

text \<open>
  C5. With every fuel of at least two, the Union with discriminator
  \<^verbatim>\<open>'type'\<close> over \<^verbatim>\<open>{user: userSchema, group: groupSchema}\<close> normalizes
  \<^verbatim>\<open>{id: 1, type: 'user'}\<close> to the tag \<^verbatim>\<open>{id: 1, schema: 'user'}\<close>, and
  denormalizing that tag through the same Union against the produced store yields an
  object with the fields of the original, \<^verbatim>\<open>{id: 1, type: 'user'}\<close>. A polymorphic
  container with a single schema returns for an element exactly what the visitor returns
  for it under that schema, with no tag around it: the single-schema Array normalizes
  \<^verbatim>\<open>[{id: 1, type: 'user'}]\<close> to \<^verbatim>\<open>[1]\<close>.
\<close>

theorem union_round_trip:
  "(case normalize' (n + 2) union_classes union_input (Ref 0) (SchemaClass 2) of
      Returned (result, st) \<Rightarrow>
        own_props (n_heap st) result = [(''id'', Num 1), (''schema'', Str ''user'')]
        \<and> (case denormalize (m + 2) union_classes (n_heap st) result (SchemaClass 2) (entities st) of
             Returned (output, st') \<Rightarrow>
               own_props (d_heap st') output = [(''id'', Num 1), (''type'', Str ''user'')]
           | _ \<Rightarrow> False)
    | _ \<Rightarrow> False)
   \<and> (isSingleSchema p \<and> \<not> is_undefined_schema (Polymorphic_schema p) \<longrightarrow>
        normalizeValue vis p element parent key st = vis element parent key (Polymorphic_schema p) st)
   \<and> (case normalize' (n + 2) union_classes single_input (Ref 0) (SchemaClass 3) of
        Returned (result, st) \<Rightarrow> array_elements (n_heap st) result = [Num 1]
      | _ \<Rightarrow> False)"
proof -
  have "isSingleSchema p \<and> \<not> is_undefined_schema (Polymorphic_schema p) \<longrightarrow>
        normalizeValue vis p element parent key st = vis element parent key (Polymorphic_schema p) st"
    by (simp add: normalizeValue_def inferSchema_def bind_Returned)
  moreover have "normalize' (n + 2) union_classes union_input (Ref 0) (SchemaClass 2) =
     Returned (Ref 2,
       \<lparr> n_heap = union_input @ [PlainObj [(''id'', Num 1), (''type'', Str ''user'')],
                                  PlainObj [(''id'', Num 1), (''schema'', Str ''user'')]],
         entities = [(''users'', [(''1'', Ref 1)])],
         visitedEntities = [(''users'', [(''1'', [Ref 0])])] \<rparr>)"
    using union_normalize_run [of n] by simp
  moreover have "denormalize (m + 2) union_classes
      (union_input @ [PlainObj [(''id'', Num 1), (''type'', Str ''user'')],
                      PlainObj [(''id'', Num 1), (''schema'', Str ''user'')]])
      (Ref 2) (SchemaClass 2) [(''users'', [(''1'', Ref 1)])] =
     Returned (Ref 3,
       \<lparr> d_heap = union_input @ [PlainObj [(''id'', Num 1), (''type'', Str ''user'')],
                                  PlainObj [(''id'', Num 1), (''schema'', Str ''user'')],
                                  PlainObj [(''id'', Num 1), (''type'', Str ''user'')]],
         cache = [(''users'', [(''1'', Ref 3)])],
         inProgress = {} \<rparr>)"
    using union_denormalize_run [of m] by simp
  moreover have "normalize' (n + 2) union_classes single_input (Ref 0) (SchemaClass 3) =
     Returned (Ref 3,
       \<lparr> n_heap = single_input @ [PlainObj [(''id'', Num 1), (''type'', Str ''user'')], ArrayObj [Num 1]],
         entities = [(''users'', [(''1'', Ref 2)])],
         visitedEntities = [(''users'', [(''1'', [Ref 1])])] \<rparr>)"
    using single_normalize_run [of n] by simp
  ultimately show ?thesis
    by (simp add: own_props_def array_elements_def obj_at_def union_input_def single_input_def)
qed

theorem union_round_trip_witness:
  "isSingleSchema (new_Polymorphic (SchemaClass 0) None)
   \<and> \<not> is_undefined_schema (Polymorphic_schema (new_Polymorphic (SchemaClass 0) None))
   \<and> normalizeValue (visit 1 union_classes) (new_Polymorphic (SchemaClass 0) None)
         (Ref 1) (Ref 0) (Str []) (initial_nstate single_input)
       = Returned (Num 1,
           \<lparr> n_heap = single_input @ [PlainObj [(''id'', Num 1), (''type'', Str ''user'')]],
             entities = [(''users'', [(''1'', Ref 2)])],
             visitedEntities = [(''users'', [(''1'', [Ref 1])])] \<rparr>)"
  using union_round_trip [where p = "new_Polymorphic (SchemaClass 0) None"
      and vis = "visit 1 union_classes" and element = "Ref 1" and parent = "Ref 0" and key = "Str []"
      and st = "initial_nstate single_input"]
  by (simp add: union_classes_def single_input_def normalize_simps heap_simps string_of_nat_1)

subsection \<open>Outcomes\<close>

lemma bind_eq_Threw:
  "bind m f = Threw e \<longleftrightarrow> m = Threw e \<or> (\<exists>x. m = Returned x \<and> f x = Threw e)"
  by (cases m) auto

lemma bind_eq_Returned:
  "bind m f = Returned y \<longleftrightarrow> (\<exists>x. m = Returned x \<and> f x = Returned y)"
  by (cases m) auto

lemma mapM_Threw:
  "mapM f xs s = Threw e \<Longrightarrow> \<exists>x s'. f x s' = Threw e"
  by (induction xs arbitrary: s) (auto simp: bind_eq_Threw split: prod.splits)

lemma forEach_Threw:
  "forEach f xs s = Threw e \<Longrightarrow> \<exists>x s'. f x s' = Threw e"
  by (induction xs arbitrary: s) (auto simp: bind_eq_Threw)

lemma mapM_unchanged:
  "(\<And>x. x \<in> set xs \<Longrightarrow> f x s = Returned (x, s)) \<Longrightarrow> mapM f xs s = Returned (xs, s)"
  by (induction xs) auto

subsection \<open>The errors of normalize\<close>

lemma lift_validate_no_unexpected: "lift (validate e h v) \<noteq> Threw (UnexpectedInput kind)"
  by (simp add: validate_def)

lemma lift_validateSchema_no_unexpected: "lift (validateSchema d) \<noteq> Threw (UnexpectedInput kind)"
  by (simp add: validateSchema_def)

lemma lift_schema_keys_no_unexpected: "lift (schema_keys s) \<noteq> Threw (UnexpectedInput kind)"
  by (cases s) auto

lemma lift_getSchemaAttribute_no_unexpected:
  "lift (getSchemaAttribute p h v parent key) \<noteq> Threw (UnexpectedInput kind)"
  by (auto simp: getSchemaAttribute_def split: option.splits SchemaAttribute.splits)

lemma lift_inferSchema_no_unexpected:
  "lift (inferSchema p h v parent key) \<noteq> Threw (UnexpectedInput kind)"
  using lift_getSchemaAttribute_no_unexpected [of p h v parent key kind]
  by (auto simp: inferSchema_def split: sum.splits)

lemmas lift_no_unexpected = lift_validate_no_unexpected lift_validateSchema_no_unexpected
  lift_schema_keys_no_unexpected lift_getSchemaAttribute_no_unexpected lift_inferSchema_no_unexpected

lemma ArrayUtils_normalize_no_unexpected:
  "never_unexpected vis \<Longrightarrow> ArrayUtils_normalize vis d v p k st \<noteq> Threw (UnexpectedInput kind)"
  unfolding ArrayUtils_normalize_def never_unexpected_def
  by (auto simp: bind_eq_Threw lift_no_unexpected split: prod.splits dest!: mapM_Threw)

lemma ObjectUtils_normalize_no_unexpected:
  "never_unexpected vis \<Longrightarrow> ObjectUtils_normalize vis s v p k st \<noteq> Threw (UnexpectedInput kind)"
  unfolding ObjectUtils_normalize_def ObjectUtils_normalize_field_def never_unexpected_def
  by (auto simp: bind_eq_Threw lift_no_unexpected split: prod.splits if_splits dest!: forEach_Threw)

lemma Entity_normalize_no_unexpected:
  "never_unexpected vis \<Longrightarrow> Entity_normalize vis e v p k st \<noteq> Threw (UnexpectedInput kind)"
  unfolding Entity_normalize_def Entity_normalize_field_def never_unexpected_def Let_def
  by (auto simp: bind_eq_Threw lift_no_unexpected split: prod.splits if_splits dest!: forEach_Threw)

lemma normalizeValue_no_unexpected:
  "never_unexpected vis \<Longrightarrow> normalizeValue vis q v p k st \<noteq> Threw (UnexpectedInput kind)"
  unfolding normalizeValue_def never_unexpected_def
  by (auto simp: bind_eq_Threw lift_no_unexpected split: prod.splits if_splits)

lemma ArraySchema_normalize_no_unexpected:
  "never_unexpected vis \<Longrightarrow> ArraySchema_normalize vis q v p k st \<noteq> Threw (UnexpectedInput kind)"
  unfolding ArraySchema_normalize_def
  by (auto simp: bind_eq_Threw normalizeValue_no_unexpected split: prod.splits dest!: mapM_Threw)

lemma ValuesSchema_normalize_no_unexpected:
  "never_unexpected vis \<Longrightarrow> ValuesSchema_normalize vis q v p k st \<noteq> Threw (UnexpectedInput kind)"
  unfolding ValuesSchema_normalize_def ValuesSchema_normalize_step_def Let_def
  by (auto simp: bind_eq_Threw normalizeValue_no_unexpected split: prod.splits if_splits dest!: forEach_Threw)

lemma visit_never_unexpected: "never_unexpected (visit n T)"
proof (induction n)
  case 0
  show ?case by (simp add: never_unexpected_def)
next
  case (Suc n)
  show ?case
    unfolding never_unexpected_def
  proof (intro allI)
    fix v p k s st kind
    show "visit (Suc n) T v p k s st \<noteq> Threw (UnexpectedInput kind)"
      using Suc
      by (auto simp: UnionSchema_normalize_def
            ArrayUtils_normalize_no_unexpected ObjectUtils_normalize_no_unexpected
            Entity_normalize_no_unexpected normalizeValue_no_unexpected
            ArraySchema_normalize_no_unexpected ValuesSchema_normalize_no_unexpected
          split: schema.splits schema_class.splits)
  qed
qed


text \<open>
  C7, as stated, fails: \<^verbatim>\<open>normalize\<close> also throws for an input that is a
  non-null object, here the empty array given to an entity schema, which the entity's
  validation rejects.
\<close>

theorem normalize_throws_for_object_input:
  "\<not> (\<forall>fuel T h input schema.
        (\<exists>e. normalize' fuel T h input schema = Threw e) \<longleftrightarrow> \<not> (typeof input = ''object'' \<and> input \<noteq> Null))"
proof
  assume a: "\<forall>fuel T h input schema.
        (\<exists>e. normalize' fuel T h input schema = Threw e) \<longleftrightarrow> \<not> (typeof input = ''object'' \<and> input \<noteq> Null)"
  have "normalize' 1 users_classes array_for_entity (Ref 0) (SchemaClass 0) =
          Threw (EntityValidation ''users'' ''an array'')"
    by (simp add: users_classes_def array_for_entity_def normalize'_def initial_nstate_def
        Entity_normalize_def validate_def new_Entity_def isArray_def obj_at_def)
  with a show False
    by (metis typeof.simps(6) val.distinct(17))
qed

text \<open>
  C7, amended. \<^verbatim>\<open>normalize\<close> throws its unexpected-input error if and only
  if the input is not a non-null object or array, whatever the fuel and the schema, and
  the error names \<^verbatim>\<open>null\<close> or the input's \<^verbatim>\<open>typeof\<close>; no other part
  of the traversal throws that error. A thrown outcome carries no result and no store.
\<close>

theorem normalize_unexpected_input:
  "normalize' fuel T h input schema = Threw (UnexpectedInput kind) \<longleftrightarrow>
     \<not> (typeof input = ''object'' \<and> input \<noteq> Null)
     \<and> kind = (if input = Null then ''null'' else typeof input)"
proof (cases "typeof input = ''object'' \<and> input \<noteq> Null")
  case True
  then have "\<not> falsy input" by (cases input) auto
  with True show ?thesis
    using visit_never_unexpected [of fuel T]
    by (auto simp: normalize'_def never_unexpected_def)
next
  case False
  then have "falsy input \<or> typeof input \<noteq> ''object''" by (cases input) auto
  with False show ?thesis
    by (auto simp: normalize'_def)
qed

theorem normalize_unexpected_input_witness:
  "normalize' 3 users_classes [] (Num 5) (SchemaClass 0) = Threw (UnexpectedInput ''number'')
   \<and> \<not> (typeof (Num 5) = ''object'' \<and> Num 5 \<noteq> Null)"
  using normalize_unexpected_input [of 3 users_classes "[]" "Num 5" "SchemaClass 0" "''number''"]
  by simp

subsection \<open>Entity validation\<close>

lemma nested_array_run:
  "normalize' (Suc (Suc (Suc n))) users_classes nested_array_for_entity (Ref 0) (SchemaClass 0) =
     Threw (EntityValidation ''users'' ''an array'')"
  by (simp add: users_classes_def nested_array_for_entity_def normalize'_def initial_nstate_def
        Entity_normalize_def validate_def new_Entity_def isArray_def obj_at_def
        getId_def visited_list_def owns_visited_list_def in_visited_def object_prototype_keys_def
        mark_visited_def default_process_def
        Entity_normalize_field_def ArrayUtils_normalize_def validateSchema_def Let_def
        alloc_def isImmutable_def own_props_def hasOwn_def get_prop_def ToString_def string_of_int_def
        getValues_def array_elements_def)

text \<open>
  C8. Entity validation fails if and only if the value is \<^verbatim>\<open>null\<close>, an array
  or not an object. The error carries the key of the entity schema and the kind of the
  value received (\<^verbatim>\<open>null\<close>, \<^verbatim>\<open>an array\<close>, or its
  \<^verbatim>\<open>typeof\<close>), and Entity normalization throws it before touching the state.
  Thrown where an array stands for a user inside another user's friends, it is the
  outcome of the whole \<^verbatim>\<open>normalize\<close> call, with every fuel of at least three.
\<close>

theorem Entity_validate_rejects:
  "((\<exists>err. validate e h input = Inl err) \<longleftrightarrow>
      (input = Null \<or> isArray h input \<or> typeof input \<noteq> ''object''))
   \<and> (validate e (n_heap st) input = Inl err \<longrightarrow>
        err = EntityValidation (Entity_key e)
                (if input = Null then ''null'' else if isArray (n_heap st) input then ''an array''
                 else typeof input)
        \<and> Entity_normalize vis e input parent key st = Threw err)
   \<and> normalize' (n + 3) users_classes nested_array_for_entity (Ref 0) (SchemaClass 0) =
        Threw (EntityValidation ''users'' ''an array'')"
proof -
  have "normalize' (n + 3) users_classes nested_array_for_entity (Ref 0) (SchemaClass 0) =
        Threw (EntityValidation ''users'' ''an array'')"
    using nested_array_run [of n] by (simp add: numeral_3_eq_3)
  then show ?thesis
    by (auto simp: validate_def Entity_normalize_def)
qed

theorem Entity_validate_rejects_witness:
  "validate (new_Entity ''users'' []) array_for_entity (Ref 0) = Inl (EntityValidation ''users'' ''an array'')
   \<and> Entity_normalize (visit 0 users_classes) (new_Entity ''users'' []) (Ref 0) (Ref 0) Undefined
         (initial_nstate array_for_entity) = Threw (EntityValidation ''users'' ''an array'')"
  using Entity_validate_rejects [where e = "new_Entity ''users'' []" and st = "initial_nstate array_for_entity"
      and input = "Ref 0" and err = "EntityValidation ''users'' ''an array''" and parent = "Ref 0"
      and key = Undefined and vis = "visit 0 users_classes"]
  by (simp add: validate_def new_Entity_def initial_nstate_def array_for_entity_def isArray_def obj_at_def)

subsection \<open>Discriminators that select no schema\<close>

lemma is_undefined_schema_iff: "is_undefined_schema s \<longleftrightarrow> s = UndefinedSchema"
  by (cases s) auto

lemma ToString_key_like: "key_like v \<Longrightarrow> ToString h v = string_of_prim v"
  by (cases v) (auto simp: key_like_def ToString_def)

lemma normalizeValue_unmapped:
  "selects_no_schema p (n_heap st) value parent key \<Longrightarrow>
   normalizeValue vis p value parent key st = Returned (value, st)"
  by (auto simp: selects_no_schema_def normalizeValue_def inferSchema_def isSingleSchema_def
        getSchemaAttribute_def ToString_key_like
      split: option.splits SchemaAttribute.splits schema.splits if_splits)

lemma Values_forEach_unmapped:
  assumes "\<And>k. k \<in> set ks \<Longrightarrow> selects_no_schema p (n_heap st) (get_prop (n_heap st) input k) input (Str k)"
  shows "forEach (ValuesSchema_normalize_step vis p input) ks (acc, st) =
         Returned (fold (\<lambda>k out. if nullish (get_prop (n_heap st) input k) then out
                            else AList.update k (get_prop (n_heap st) input k) out) ks acc, st)"
  using assms
proof (induction ks arbitrary: acc)
  case Nil
  show ?case by simp
next
  case (Cons k ks)
  then show ?case
    by (simp add: ValuesSchema_normalize_step_def Let_def normalizeValue_unmapped)
qed

text \<open>
  C9, as stated, fails for a falsy key that is mapped: with the empty string as the
  discriminator's answer and a schema under the empty key, the element is normalized,
  an entity is stored and a tag is returned.
\<close>

theorem discriminator_falsy_but_mapped:
  "\<not> (\<forall>vis p f value parent key st.
        schemaAttribute p = Some (AttrFn f) \<and> falsy (f (n_heap st) value parent key)
        \<longrightarrow> normalizeValue vis p value parent key st = Returned (value, st))"
proof
  assume a: "\<forall>vis p f value parent key st.
        schemaAttribute p = Some (AttrFn f) \<and> falsy (f (n_heap st) value parent key)
        \<longrightarrow> normalizeValue vis p value parent key st = Returned (value, st)"
  let ?p = "new_Polymorphic (ObjectShorthand [([], SchemaClass 0)])
              (Some (AttrFn (\<lambda>h value parent key. Str [])))"
  have "normalizeValue (visit 1 falsy_key_classes) ?p (Ref 0) (Ref 0) (Str []) (initial_nstate user_one)
        = Returned (Ref 2,
            \<lparr> n_heap = user_one @ [PlainObj [(''id'', Num 1)], PlainObj [(''id'', Num 1), (''schema'', Str [])]],
              entities = [(''users'', [(''1'', Ref 1)])],
              visitedEntities = [(''users'', [(''1'', [Ref 0])])] \<rparr>)"
    by (simp add: falsy_key_classes_def user_one_def normalizeValue_def inferSchema_def
        isSingleSchema_def getSchemaAttribute_def new_Polymorphic_def initial_nstate_def
        Entity_normalize_def validate_def new_Entity_def getId_def visited_list_def mark_visited_def
        owns_visited_list_def in_visited_def object_prototype_keys_def
        default_process_def addEntities_def Let_def
        obj_at_def alloc_def isArray_def isImmutable_def own_props_def get_prop_def ToString_def
        string_of_int_def string_of_nat_1)
  moreover have "normalizeValue (visit 1 falsy_key_classes) ?p (Ref 0) (Ref 0) (Str []) (initial_nstate user_one)
        = Returned (Ref 0, initial_nstate user_one)"
    using a [rule_format, of ?p "\<lambda>h value parent key. Str []" "initial_nstate user_one" "Ref 0" "Ref 0" "Str []"
              "visit 1 falsy_key_classes"]
    by (simp add: new_Polymorphic_def)
  ultimately show False by simp
qed

text \<open>
  A key that the mapping does not own but inherits selects the inherited member, which
  is truthy: with \<^verbatim>\<open>constructor\<close> as the discriminator's answer the element is
  visited as under a bare object without fields, and a tag around its copy is returned.
  The amended property leaves these keys out.
\<close>

lemma discriminator_inherited_key:
  "normalizeValue (visit 1 union_classes) by_constructor (Ref 0) (Ref 0) (Str []) (initial_nstate user_one)
     = Returned (Ref 2,
         \<lparr> n_heap = user_one @ [PlainObj [(''id'', Num 1)],
                                PlainObj [(''id'', Ref 1), (''schema'', Str ''constructor'')]],
           entities = [], visitedEntities = [] \<rparr>)"
  by (simp add: by_constructor_def user_one_def normalizeValue_def inferSchema_def
        isSingleSchema_def getSchemaAttribute_def new_Polymorphic_def initial_nstate_def
        object_prototype_keys_def ObjectUtils_normalize_def
        obj_at_def alloc_def own_props_def ToString_def)

text \<open>
  C9, amended. When the discriminator function returns \<^verbatim>\<open>false\<close>, or a
  primitive key for which \<^verbatim>\<open>schema[key]\<close> is undefined (the mapping does not have
  the key, and the key names no member of \<^verbatim>\<open>Object.prototype\<close>), the shared
  routine returns the element itself and the state unchanged: no entity, no error. Hence a
  Union returns its input unchanged, an Array whose elements all select no schema returns
  a new array of its non-null elements, and a Values whose values all select no schema
  returns a new object with its non-null values, the store and the visited lists
  untouched (the input of the Array or Values being an object, as the visitor hands it
  over, and no immutable-style container).
\<close>

theorem discriminator_unmapped_passes_through:
  "(selects_no_schema p (n_heap st) element parent key \<longrightarrow>
      normalizeValue vis p element parent key st = Returned (element, st))
   \<and> (selects_no_schema p (n_heap st) input parent (key_or_empty key) \<longrightarrow>
      UnionSchema_normalize vis p input parent key st = Returned (input, st))
   \<and> (visited_value (n_heap st) input
        \<and> (\<forall>value \<in> set (getValues (n_heap st) input).
              selects_no_schema p (n_heap st) value parent (key_or_empty key)) \<longrightarrow>
      ArraySchema_normalize vis p input parent key st =
        Returned (Ref (length (n_heap st)),
          st\<lparr>n_heap := n_heap st @
               [ArrayObj (filter (\<lambda>value. \<not> nullish value) (getValues (n_heap st) input))]\<rparr>))
   \<and> (visited_value (n_heap st) input
        \<and> (\<forall>k \<in> set (map fst (own_props (n_heap st) input)).
              selects_no_schema p (n_heap st) (get_prop (n_heap st) input k) input (Str k)) \<longrightarrow>
      ValuesSchema_normalize vis p input parent key st =
        Returned (Ref (length (n_heap st)),
          st\<lparr>n_heap := n_heap st @
               [PlainObj (fold (\<lambda>k out. if nullish (get_prop (n_heap st) input k) then out
                                  else AList.update k (get_prop (n_heap st) input k) out)
                            (map fst (own_props (n_heap st) input)) [])]\<rparr>))"
proof (intro conjI impI)
  assume "selects_no_schema p (n_heap st) element parent key"
  then show "normalizeValue vis p element parent key st = Returned (element, st)"
    by (rule normalizeValue_unmapped)
next
  assume "selects_no_schema p (n_heap st) input parent (key_or_empty key)"
  then show "UnionSchema_normalize vis p input parent key st = Returned (input, st)"
    by (simp add: UnionSchema_normalize_def normalizeValue_unmapped)
next
  assume "visited_value (n_heap st) input
        \<and> (\<forall>value \<in> set (getValues (n_heap st) input).
              selects_no_schema p (n_heap st) value parent (key_or_empty key))"
  then have a: "\<forall>value \<in> set (getValues (n_heap st) input).
          selects_no_schema p (n_heap st) value parent (key_or_empty key)" ..
  have "mapM (\<lambda>value. normalizeValue vis p value parent (key_or_empty key))
          (getValues (n_heap st) input) st = Returned (getValues (n_heap st) input, st)"
    by (rule mapM_unchanged) (simp add: a normalizeValue_unmapped)
  then show "ArraySchema_normalize vis p input parent key st =
        Returned (Ref (length (n_heap st)),
          st\<lparr>n_heap := n_heap st @
               [ArrayObj (filter (\<lambda>value. \<not> nullish value) (getValues (n_heap st) input))]\<rparr>)"
    by (simp add: ArraySchema_normalize_def alloc_def)
next
  assume "visited_value (n_heap st) input
        \<and> (\<forall>k \<in> set (map fst (own_props (n_heap st) input)).
              selects_no_schema p (n_heap st) (get_prop (n_heap st) input k) input (Str k))"
  then have a: "\<forall>k \<in> set (map fst (own_props (n_heap st) input)).
          selects_no_schema p (n_heap st) (get_prop (n_heap st) input k) input (Str k)" ..
  have "forEach (ValuesSchema_normalize_step vis p input) (map fst (own_props (n_heap st) input)) ([], st) =
         Returned (fold (\<lambda>k out. if nullish (get_prop (n_heap st) input k) then out
                            else AList.update k (get_prop (n_heap st) input k) out)
                     (map fst (own_props (n_heap st) input)) [], st)"
    by (rule Values_forEach_unmapped) (use a in blast)
  then show "ValuesSchema_normalize vis p input parent key st =
        Returned (Ref (length (n_heap st)),
          st\<lparr>n_heap := n_heap st @
               [PlainObj (fold (\<lambda>k out. if nullish (get_prop (n_heap st) input k) then out
                                  else AList.update k (get_prop (n_heap st) input k) out)
                            (map fst (own_props (n_heap st) input)) [])]\<rparr>)"
    by (simp add: ValuesSchema_normalize_def alloc_def)
qed

theorem discriminator_unmapped_passes_through_witness:
  "selects_no_schema undecided unknown_things (Ref 1) (Ref 0) Undefined
   \<and> visited_value unknown_things (Ref 0)
   \<and> normalizeValue (visit 0 union_classes) undecided (Ref 1) (Ref 0) Undefined (initial_nstate unknown_things)
       = Returned (Ref 1, initial_nstate unknown_things)
   \<and> UnionSchema_normalize (visit 0 union_classes) undecided (Ref 1) (Ref 0) Undefined
         (initial_nstate unknown_things)
       = Returned (Ref 1, initial_nstate unknown_things)
   \<and> ArraySchema_normalize (visit 0 union_classes) undecided (Ref 0) (Ref 0) Undefined
         (initial_nstate unknown_things)
       = Returned (Ref 2, (initial_nstate unknown_things)\<lparr>n_heap := unknown_things @ [ArrayObj [Ref 1]]\<rparr>)
   \<and> ValuesSchema_normalize (visit 0 union_classes) undecided (Ref 0) (Ref 0) Undefined
         (initial_nstate unknown_things)
       = Returned (Ref 2, (initial_nstate unknown_things)\<lparr>n_heap := unknown_things @ [PlainObj [(''0'', Ref 1)]]\<rparr>)"
proof -
  have sel: "selects_no_schema undecided unknown_things v p k" for v p k
    by (simp add: selects_no_schema_def undecided_def new_Polymorphic_def key_like_def
        object_prototype_keys_def)
  have h: "n_heap (initial_nstate unknown_things) = unknown_things"
    by (simp add: initial_nstate_def)
  have vv: "visited_value unknown_things (Ref 0)"
    by (simp add: visited_value_def unknown_things_def isImmutable_def obj_at_def)
  have s0: "string_of_nat 0 = ''0''"
    by code_simp
  have gv: "getValues unknown_things (Ref 0) = [Ref 1]"
    by (simp add: unknown_things_def getValues_def isArray_def array_elements_def obj_at_def)
  have op: "own_props unknown_things (Ref 0) = [(''0'', Ref 1)]"
    by (simp add: unknown_things_def own_props_def obj_at_def index_keys_def s0)
  have gp: "get_prop unknown_things (Ref 0) ''0'' = Ref 1"
    by (simp add: get_prop_def op)
  show ?thesis
    using discriminator_unmapped_passes_through
      [where p = undecided and st = "initial_nstate unknown_things" and element = "Ref 1"
         and parent = "Ref 0" and key = Undefined and input = "Ref 1" and vis = "visit 0 union_classes"]
      discriminator_unmapped_passes_through
      [where p = undecided and st = "initial_nstate unknown_things" and element = "Ref 1"
         and parent = "Ref 0" and key = Undefined and input = "Ref 0" and vis = "visit 0 union_classes"]
    by (simp add: sel h gv op gp vv) (simp add: unknown_things_def)
qed

subsection \<open>Denormalization only extends the heap and the cache\<close>

lemma length_set_prop [simp]: "length (set_prop h v k x) = length h"
  by (auto simp: set_prop_def split: val.splits obj.splits)

lemma set_prop_other: "v \<noteq> Ref a \<Longrightarrow> set_prop h v k x ! a = h ! a"
  by (auto simp: set_prop_def nth_list_update split: val.splits obj.splits)

lemma keeps_refl: "L \<le> length (d_heap s) \<Longrightarrow> keeps L s s"
  by (simp add: keeps_def later_def)

lemma keeps_trans: "keeps L s s1 \<Longrightarrow> keeps L s1 s2 \<Longrightarrow> keeps L s s2"
  by (auto simp: keeps_def later_def)

lemma keeps_mono: "keeps L s s' \<Longrightarrow> L' \<le> L \<Longrightarrow> keeps L' s s'"
  by (auto simp: keeps_def later_def)

lemma keeps_length: "keeps L s s' \<Longrightarrow> L \<le> length (d_heap s')"
  by (auto simp: keeps_def later_def)

lemma keeps_append: "keeps L s s1 \<Longrightarrow> keeps L s (s1\<lparr>d_heap := d_heap s1 @ [ob]\<rparr>)"
  by (auto simp: keeps_def later_def nth_append)

lemma keeps_set_prop:
  assumes "keeps L s s1" and "\<And>a. v = Ref a \<Longrightarrow> L \<le> a"
  shows "keeps L s (s1\<lparr>d_heap := set_prop (d_heap s1) v k x\<rparr>)"
proof -
  have "set_prop (d_heap s1) v k x ! a = d_heap s1 ! a" if "a < L" for a
    using assms(2) [of a] that by (intro set_prop_other) auto
  with assms(1) show ?thesis
    by (simp add: keeps_def later_def)
qed

lemma preservingD:
  "preserving unv \<Longrightarrow> unv input schema s = Returned (v, s') \<Longrightarrow> L \<le> length (d_heap s) \<Longrightarrow> keeps L s s'"
  unfolding preserving_def by (blast intro: keeps_mono)

text \<open>Loops whose state projects to a denormalization state.\<close>

lemma forEach_keeps:
  assumes step: "\<And>x s s'. f x s = Returned s' \<Longrightarrow> L \<le> length (d_heap (pr s)) \<Longrightarrow> keeps L (pr s) (pr s')"
  shows "forEach f xs s = Returned s' \<Longrightarrow> L \<le> length (d_heap (pr s)) \<Longrightarrow> keeps L (pr s) (pr s')"
proof (induction xs arbitrary: s)
  case Nil
  then show ?case by (simp add: keeps_refl)
next
  case (Cons x xs)
  from Cons.prems(1) obtain s1 where 1: "f x s = Returned s1" and 2: "forEach f xs s1 = Returned s'"
    by (auto simp: bind_eq_Returned)
  from step [OF 1 Cons.prems(2)] have a: "keeps L (pr s) (pr s1)" .
  then have "L \<le> length (d_heap (pr s1))" by (rule keeps_length)
  from Cons.IH [OF 2 this] a show ?case
    by (blast intro: keeps_trans)
qed

lemma mapM_keeps:
  assumes step: "\<And>x s y s'. f x s = Returned (y, s') \<Longrightarrow> L \<le> length (d_heap s) \<Longrightarrow> keeps L s s'"
  shows "mapM f xs s = Returned (ys, s') \<Longrightarrow> L \<le> length (d_heap s) \<Longrightarrow> keeps L s s'"
proof (induction xs arbitrary: s ys)
  case Nil
  then show ?case by (simp add: keeps_refl)
next
  case (Cons x xs)
  from Cons.prems(1) obtain y s1 ys' where 1: "f x s = Returned (y, s1)"
    and 2: "mapM f xs s1 = Returned (ys', s')"
    by (auto simp: bind_eq_Returned)
  from step [OF 1 Cons.prems(2)] have a: "keeps L s s1" .
  then have "L \<le> length (d_heap s1)" by (rule keeps_length)
  from Cons.IH [OF 2 this] a show ?case
    by (blast intro: keeps_trans)
qed

lemma map_values_keeps:
  assumes step: "\<And>x s y s'. f x s = Returned (y, s') \<Longrightarrow> L \<le> length (d_heap s) \<Longrightarrow> keeps L s s'"
    and run: "map_values f input s = Returned (v, s')" and L: "L \<le> length (d_heap s)"
  shows "keeps L s s'"
proof -
  have *: "keeps L s (s1\<lparr>d_heap := d_heap s1 @ [ob]\<rparr>)" if "mapM f xs s = Returned (ys, s1)" for xs ys s1 ob
    using mapM_keeps [where f = f, OF step that L] by (rule keeps_append)
  from run L show ?thesis
    unfolding map_values_def
    by (auto simp: bind_eq_Returned alloc_def keeps_refl * split: if_splits)
qed

lemma ArrayUtils_denormalize_keeps:
  assumes "preserving unv" and "ArrayUtils_denormalize unv d input s = Returned (v, s')"
    and "L \<le> length (d_heap s)"
  shows "keeps L s s'"
proof -
  from assms(2) obtain sch where "map_values (\<lambda>entityOrId. unv entityOrId sch) input s = Returned (v, s')"
    by (auto simp: ArrayUtils_denormalize_def bind_eq_Returned)
  then show ?thesis
    using assms(3) by (rule map_values_keeps [rotated]) (rule preservingD [OF assms(1)])
qed

lemma denormalizeImmutable_keeps:
  assumes "preserving unv" and "denormalizeImmutable unv d input s = Returned (v, s')"
    and "L \<le> length (d_heap s)"
  shows "keeps L s s'"
proof -
  have step: "keeps L (snd st) (snd st')"
    if "denormalizeImmutable_step unv x st = Returned st'" and "L \<le> length (d_heap (snd st))" for x st st'
  proof -
    obtain key keySchema object s0 where x: "x = (key, keySchema)" and st: "st = (object, s0)"
      by (cases x, cases st) auto
    show ?thesis
    proof (cases "immutable_has (d_heap s0) object key")
      case True
      with that(1) obtain w s1 where 1: "unv (immutable_get (d_heap s0) object key) keySchema s0 = Returned (w, s1)"
        and 2: "st' = (Ref (length (d_heap s1)), s1\<lparr>d_heap := d_heap s1 @ [ImmutableObj (AList.update key w (immutable_entries (d_heap s1) object))]\<rparr>)"
        by (auto simp: denormalizeImmutable_step_def x st bind_eq_Returned immutable_set_def alloc_def)
      from preservingD [OF assms(1) 1] that(2) have "keeps L s0 s1" by (simp add: st)
      then show ?thesis
        by (simp add: 2 st keeps_append)
    next
      case False
      with that show ?thesis
        by (simp add: denormalizeImmutable_step_def x st keeps_refl)
    qed
  qed
  from assms(2) have "forEach (denormalizeImmutable_step unv) d (input, s) = Returned (v, s')"
    by (simp add: denormalizeImmutable_def)
  from forEach_keeps [where pr = snd and f = "denormalizeImmutable_step unv" and L = L, OF step this]
  show ?thesis using assms(3) by simp
qed


lemma field_loop_keeps:
  assumes unv: "preserving unv"
    and fresh: "\<And>a. object = Ref a \<Longrightarrow> L \<le> a"
    and step: "\<And>schemaKey keySchema s. f (schemaKey, keySchema) s =
                 (if c schemaKey s then
                    bind (unv (get_prop (d_heap s) object schemaKey) keySchema s)
                      (\<lambda>(v, st'). Returned (st'\<lparr>d_heap := set_prop (d_heap st') object schemaKey v\<rparr>))
                  else Returned s)"
    and run: "forEach f d s = Returned s'" and L: "L \<le> length (d_heap s)"
  shows "keeps L s s'"
proof -
  have "keeps L s0 s1" if "f x s0 = Returned s1" and "L \<le> length (d_heap s0)" for x s0 s1
  proof -
    obtain schemaKey keySchema where x: "x = (schemaKey, keySchema)" by (cases x)
    show ?thesis
    proof (cases "c schemaKey s0")
      case True
      with that(1) obtain w s2 where 1: "unv (get_prop (d_heap s0) object schemaKey) keySchema s0 = Returned (w, s2)"
        and 2: "s1 = s2\<lparr>d_heap := set_prop (d_heap s2) object schemaKey w\<rparr>"
        by (auto simp: x step bind_eq_Returned)
      from preservingD [OF unv 1 that(2)] show ?thesis
        unfolding 2 by (rule keeps_set_prop) (rule fresh)
    next
      case False
      with that show ?thesis by (simp add: x step keeps_refl)
    qed
  qed
  from forEach_keeps [where pr = "\<lambda>s. s" and f = f and L = L, OF this run L] show ?thesis .
qed

lemma ObjectUtils_denormalize_keeps:
  assumes "preserving unv" and "ObjectUtils_denormalize unv sch input s = Returned (v, s')"
    and "L \<le> length (d_heap s)"
  shows "keeps L s s'"
proof (cases "isImmutable (d_heap s) input")
  case True
  with assms(2) obtain d where "denormalizeImmutable unv d input s = Returned (v, s')"
    by (auto simp: ObjectUtils_denormalize_def bind_eq_Returned)
  from denormalizeImmutable_keeps [OF assms(1) this assms(3)] show ?thesis .
next
  case False
  let ?o = "Ref (length (d_heap s))"
  let ?s0 = "s\<lparr>d_heap := d_heap s @ [PlainObj (own_props (d_heap s) input)]\<rparr>"
  from False assms(2) obtain d where run: "forEach (ObjectUtils_denormalize_field unv ?o) d ?s0 = Returned s'"
    by (auto simp: ObjectUtils_denormalize_def bind_eq_Returned alloc_def)
  have 0: "keeps L s ?s0"
    using assms(3) by (intro keeps_append keeps_refl)
  have "keeps L ?s0 s'"
  proof (rule field_loop_keeps [OF assms(1) _ _ run])
    show "L \<le> a" if "?o = Ref a" for a using that assms(3) by simp
    show "ObjectUtils_denormalize_field unv ?o (schemaKey, keySchema) s =
            (if \<not> nullish (get_prop (d_heap s) ?o schemaKey) then
               bind (unv (get_prop (d_heap s) ?o schemaKey) keySchema s)
                 (\<lambda>(v, st'). Returned (st'\<lparr>d_heap := set_prop (d_heap st') ?o schemaKey v\<rparr>))
             else Returned s)" for schemaKey keySchema s
      by (simp add: ObjectUtils_denormalize_field_def)
    show "L \<le> length (d_heap ?s0)" using assms(3) by simp
  qed
  with 0 show ?thesis by (rule keeps_trans)
qed

lemma Entity_denormalize_keeps:
  assumes "preserving unv" and "Entity_denormalize unv e entity s = Returned (v, s')"
    and "L \<le> length (d_heap s)" and fresh: "\<And>a. entity = Ref a \<Longrightarrow> isImmutable (d_heap s) entity \<or> L \<le> a"
  shows "keeps L s s'"
proof (cases "isImmutable (d_heap s) entity")
  case True
  with assms(2) have "denormalizeImmutable unv (Entity_schema e) entity s = Returned (v, s')"
    by (simp add: Entity_denormalize_def)
  from denormalizeImmutable_keeps [OF assms(1) this assms(3)] show ?thesis .
next
  case False
  with assms(2) have run: "forEach (Entity_denormalize_field unv entity) (Entity_schema e) s = Returned s'"
    by (auto simp: Entity_denormalize_def bind_eq_Returned)
  show ?thesis
  proof (rule field_loop_keeps [OF assms(1) _ _ run assms(3)])
    show "L \<le> a" if "entity = Ref a" for a using fresh [OF that] False by simp
    show "Entity_denormalize_field unv entity (schemaKey, keySchema) s =
            (if hasOwn (d_heap s) entity schemaKey then
               bind (unv (get_prop (d_heap s) entity schemaKey) keySchema s)
                 (\<lambda>(v, st'). Returned (st'\<lparr>d_heap := set_prop (d_heap st') entity schemaKey v\<rparr>))
             else Returned s)" for schemaKey keySchema s
      by (simp add: Entity_denormalize_field_def)
  qed
qed

lemma denormalizeValue_keeps:
  assumes "preserving unv" and "denormalizeValue unv p x s = Returned (v, s')" and "L \<le> length (d_heap s)"
  shows "keeps L s s'"
  using assms(2,3) preservingD [OF assms(1)]
  by (auto simp: denormalizeValue_def Let_def keeps_refl split: if_splits)

lemma ArraySchema_denormalize_keeps:
  assumes "preserving unv" and "ArraySchema_denormalize unv p input s = Returned (v, s')"
    and "L \<le> length (d_heap s)"
  shows "keeps L s s'"
  using assms(2) [unfolded ArraySchema_denormalize_def] assms(3)
  by (rule map_values_keeps [rotated]) (rule denormalizeValue_keeps [OF assms(1)])

lemma ValuesSchema_denormalize_keeps:
  assumes "preserving unv" and "ValuesSchema_denormalize unv p input s = Returned (v, s')"
    and "L \<le> length (d_heap s)"
  shows "keeps L s s'"
proof -
  have step: "keeps L (snd st) (snd st')"
    if "ValuesSchema_denormalize_step unv p input k st = Returned st'" and "L \<le> length (d_heap (snd st))"
    for k st st'
    using that denormalizeValue_keeps [OF assms(1)]
    by (cases st) (auto simp: ValuesSchema_denormalize_step_def bind_eq_Returned)
  from assms(2) obtain out s1 where
    1: "forEach (ValuesSchema_denormalize_step unv p input) (map fst (own_props (d_heap s) input)) ([], s)
          = Returned (out, s1)"
    and 2: "s' = s1\<lparr>d_heap := d_heap s1 @ [PlainObj out]\<rparr>"
    by (auto simp: ValuesSchema_denormalize_def bind_eq_Returned alloc_def)
  from forEach_keeps [where pr = snd and f = "ValuesSchema_denormalize_step unv p input" and L = L, OF step 1]
  have "keeps L s s1" using assms(3) by simp
  then show ?thesis unfolding 2 by (rule keeps_append)
qed


lemma cache_lookup_store:
  "cache_lookup (cache_store k i v c) k' i' = (if k' = k \<and> i' = i then Some v else cache_lookup c k' i')"
  by (auto simp: cache_lookup_def cache_store_def update_conv' split: option.splits)

lemma cache_lookup_init: "cache_lookup (cache_init k c) k' i' = cache_lookup c k' i'"
  by (auto simp: cache_lookup_def cache_init_def update_conv' split: option.splits)

lemma fallback_heap:
  "fallback e ident h = (entity, h1) \<Longrightarrow> h1 = h \<or> (\<exists>ob. h1 = h @ [ob])"
  by (auto simp: fallback_def alloc_def split: option.splits)

lemma keeps_heap_cache:
  assumes "L \<le> length (d_heap s)" and "h1 = d_heap s \<or> (\<exists>ob. h1 = d_heap s @ [ob])"
  shows "keeps L s (s\<lparr>d_heap := h1, cache := cache_init k (cache s)\<rparr>)"
    and "keeps L s (s\<lparr>d_heap := h1\<rparr>)"
  using assms by (auto simp: keeps_def later_def nth_append cache_lookup_init)

lemma unvisitEntity_miss_keeps:
  assumes unv: "preserving unv"
    and run: "Entity_denormalize unv e entityCopy s2 = Returned (v, s3)"
    and s1: "keeps L s s1"
    and heap: "d_heap s2 = d_heap s1 \<or> (\<exists>ob. d_heap s2 = d_heap s1 @ [ob])"
    and fresh: "\<And>a. entityCopy = Ref a \<Longrightarrow> isImmutable (d_heap s2) entityCopy \<or> L \<le> a"
    and prog: "inProgress s2 = insert ck (inProgress s1)" "ck \<notin> inProgress s1"
    and cache: "cache s2 = cache_store key idKey entityCopy (cache s1)"
               "cache_lookup (cache s1) key idKey = None"
    and s': "d_heap s' = d_heap s3" "cache s' = cache_store key idKey v (cache s3)"
            "inProgress s' = inProgress s3 - {ck}"
  shows "keeps L s s'"
proof -
  have L1: "L \<le> length (d_heap s1)" using s1 by (rule keeps_length)
  then have L2: "L \<le> length (d_heap s2)" using heap by auto
  from Entity_denormalize_keeps [OF unv run L2 fresh] have 23: "keeps L s2 s3" .
  have "later L s s'"
    unfolding later_def
  proof (intro conjI allI impI)
    show "L \<le> length (d_heap s)" using s1 by (simp add: keeps_def later_def)
    show "length (d_heap s) \<le> length (d_heap s')"
      using 23 s1 heap by (auto simp: keeps_def later_def s')
    show "d_heap s' ! a = d_heap s ! a" if "a < L" for a
    proof -
      have "d_heap s3 ! a = d_heap s2 ! a" using 23 that by (simp add: keeps_def later_def)
      also have "d_heap s2 ! a = d_heap s1 ! a" using heap that L1 by (auto simp: nth_append)
      also have "d_heap s1 ! a = d_heap s ! a" using s1 that by (simp add: keeps_def later_def)
      finally show ?thesis by (simp add: s')
    qed
    show "cache_lookup (cache s') k i = Some w" if "cache_lookup (cache s) k i = Some w" for k i w
    proof -
      from that s1 have 1: "cache_lookup (cache s1) k i = Some w" by (simp add: keeps_def later_def)
      with cache(2) have ne: "\<not> (k = key \<and> i = idKey)" by auto
      have "cache_lookup (cache s2) k i = Some w"
        using 1 ne by (auto simp: cache(1) cache_lookup_store)
      with 23 have "cache_lookup (cache s3) k i = Some w" by (simp add: keeps_def later_def)
      then show ?thesis using ne by (auto simp: s' cache_lookup_store)
    qed
  qed
  moreover have "inProgress s' = inProgress s"
    using 23 s1 prog by (auto simp: keeps_def s')
  ultimately show ?thesis by (simp add: keeps_def)
qed

lemma lookup_entity_heap:
  "lookup_entity ents e ident h = (entity, h1) \<Longrightarrow> h1 = h \<or> (\<exists>ob. h1 = h @ [ob])"
  by (auto simp: lookup_entity_def Let_def dest: fallback_heap split: if_splits)

lemma unvisitEntity_keeps:
  assumes unv: "preserving unv" and run: "unvisitEntity unv ents ident e s = Returned (v, s')"
    and L: "L \<le> length (d_heap s)"
  shows "keeps L s s'"
proof -
  obtain entity h1 where eh: "lookup_entity ents e ident (d_heap s) = (entity, h1)"
    by fastforce
  from lookup_entity_heap [OF eh] have h1: "h1 = d_heap s \<or> (\<exists>ob. h1 = d_heap s @ [ob])" .
  let ?s1 = "s\<lparr>d_heap := h1, cache := cache_init (Entity_key e) (cache s)\<rparr>"
  let ?ck = "cacheKey_of (Entity_key e) (ToString h1 ident)"
  note k1 = keeps_heap_cache [OF L h1]
  note run' = run [unfolded unvisitEntity_def eh prod.case Let_def]
  show ?thesis
  proof (cases "typeof entity \<noteq> ''object'' \<or> entity = Null")
    case True
    with run' have "s' = s\<lparr>d_heap := h1\<rparr>" by auto
    then show ?thesis by (simp add: k1)
  next
    case obj: False
    show ?thesis
    proof (cases "?ck \<in> inProgress s")
      case True
      with obj run' have "s' = ?s1" by (auto split: if_splits)
      then show ?thesis by (simp add: k1)
    next
      case notin: False
      show ?thesis
      proof (cases "cache_lookup (cache_init (Entity_key e) (cache s)) (Entity_key e) (ToString h1 ident)")
        case (Some c)
        with obj notin run' have "s' = ?s1" by auto
        then show ?thesis by (simp add: k1)
      next
        case None
        obtain entityCopy h2 where ch: "copy_entity h1 entity = (entityCopy, h2)"
          by fastforce
        let ?s2 = "s\<lparr>d_heap := h2, inProgress := insert ?ck (inProgress s),
                       cache := cache_store (Entity_key e) (ToString h1 ident) entityCopy
                                  (cache_init (Entity_key e) (cache s))\<rparr>"
        from obj notin None run' obtain s3 where
          3: "Entity_denormalize unv e entityCopy ?s2 = Returned (v, s3)"
          and s': "s' = s3\<lparr>cache := cache_store (Entity_key e) (ToString h1 ident) v (cache s3),
                            inProgress := inProgress s3 - {?ck}\<rparr>"
          by (auto simp: ch bind_eq_Returned)
        show ?thesis
        proof (rule unvisitEntity_miss_keeps [OF unv 3 k1(1)])
          show "d_heap ?s2 = d_heap ?s1 \<or> (\<exists>ob. d_heap ?s2 = d_heap ?s1 @ [ob])"
            using ch by (auto simp: copy_entity_def alloc_def split: if_splits)
          show "isImmutable (d_heap ?s2) entityCopy \<or> L \<le> a" if "entityCopy = Ref a" for a
            using that ch L h1 by (auto simp: copy_entity_def alloc_def split: if_splits)
          show "inProgress ?s2 = insert ?ck (inProgress ?s1)" by simp
          show "?ck \<notin> inProgress ?s1" using notin by simp
          show "cache ?s2 = cache_store (Entity_key e) (ToString h1 ident) entityCopy (cache ?s1)" by simp
          show "cache_lookup (cache ?s1) (Entity_key e) (ToString h1 ident) = None" using None by simp
        qed (simp_all add: s')
      qed
    qed
  qed
qed

lemma unvisit_preserving: "preserving (unvisit n T ents)"
proof (induction n)
  case 0
  show ?case by (simp add: preserving_def)
next
  case (Suc n)
  show ?case
    unfolding preserving_def
  proof (intro allI impI)
    fix input schema s v s'
    assume run: "unvisit (Suc n) T ents input schema s = Returned (v, s')"
    note intros = ArrayUtils_denormalize_keeps [OF Suc] ObjectUtils_denormalize_keeps [OF Suc]
      unvisitEntity_keeps [OF Suc] ArraySchema_denormalize_keeps [OF Suc]
      ValuesSchema_denormalize_keeps [OF Suc] denormalizeValue_keeps [OF Suc]
    from run show "keeps (length (d_heap s)) s s'"
      by (auto simp: UnionSchema_denormalize_def keeps_refl
            split: schema.splits schema_class.splits if_splits intro: intros)
  qed
qed

subsection \<open>Deep copies are stable under heap extension\<close>

lemma traverse_cong:
  "(\<And>x. x \<in> set xs \<Longrightarrow> f x = g x) \<Longrightarrow> traverse f xs = traverse g xs"
  by (induction xs) (auto cong: option.case_cong)

lemma traverse_props_cong:
  "(\<And>v. v \<in> snd ` set fs \<Longrightarrow> f v = g v) \<Longrightarrow> traverse_props f fs = traverse_props g fs"
  unfolding traverse_props_def
proof (rule traverse_cong)
  fix x assume a: "\<And>v. v \<in> snd ` set fs \<Longrightarrow> f v = g v" and x: "x \<in> set fs"
  obtain k v where kv: "x = (k, v)" by (cases x)
  with x have "v \<in> snd ` set fs" by force
  from a [OF this] show "(case x of (k, v) \<Rightarrow> case f v of None \<Rightarrow> None | Some t \<Rightarrow> Some (k, t)) =
        (case x of (k, v) \<Rightarrow> case g v of None \<Rightarrow> None | Some t \<Rightarrow> Some (k, t))"
    by (simp add: kv)
qed

lemma snapshot_frame:
  assumes "heap_closed h" and "length h \<le> length h'" and "\<forall>a<length h. h' ! a = h ! a"
  shows "within (length h) v \<Longrightarrow> snapshot n h' v = snapshot n h v"
proof (induction n arbitrary: v)
  case 0
  then show ?case by (cases v) auto
next
  case (Suc n)
  show ?case
  proof (cases v)
    case (Ref a)
    with Suc.prems have a: "a < length h" by (simp add: within_def)
    with assms have eq: "h' ! a = h ! a" and a': "a < length h'" by auto
    have sub: "snapshot n h' w = snapshot n h w" if "w \<in> set (refs_of (h ! a))" for w
      using assms(1) a that by (intro Suc.IH) (auto simp: heap_closed_def)
    show ?thesis
    proof (cases "h ! a")
      case (PlainObj fs)
      have "traverse_props (snapshot n h') fs = traverse_props (snapshot n h) fs"
        by (rule traverse_props_cong) (use sub PlainObj in auto)
      then show ?thesis by (simp add: Ref a a' eq PlainObj)
    next
      case (ArrayObj vs)
      have "traverse (snapshot n h') vs = traverse (snapshot n h) vs"
        by (rule traverse_cong) (use sub ArrayObj in auto)
      then show ?thesis by (simp add: Ref a a' eq ArrayObj)
    next
      case (ImmutableObj fs)
      have "traverse_props (snapshot n h') fs = traverse_props (snapshot n h) fs"
        by (rule traverse_props_cong) (use sub ImmutableObj in auto)
      then show ?thesis by (simp add: Ref a a' eq ImmutableObj)
    qed
  qed auto
qed

subsection \<open>Resolving the same reference again\<close>

lemma cyclic_denormalize_run:
  "denormalize (Suc (Suc (Suc n))) users_classes stored_cyclic_user (Num 123) (SchemaClass 0)
      [(''users'', [(''123'', Ref 0)])] =
     Returned (Ref 2,
       \<lparr> d_heap = stored_cyclic_user @ [PlainObj [(''id'', Num 123), (''friends'', Ref 3)], ArrayObj [Ref 2]],
         cache = [(''users'', [(''123'', Ref 2)])],
         inProgress = {} \<rparr>)"
  by (simp add: users_classes_def stored_cyclic_user_def denormalize_simps heap_simps string_of_nat_123)

lemma ToString_prim: "typeof ident \<noteq> ''object'' \<Longrightarrow> ToString h ident = string_of_prim ident"
  by (cases ident) (auto simp: ToString_def)

lemma getEntities_prim:
  "typeof ident \<noteq> ''object'' \<Longrightarrow> getEntities ents h ident e = getEntities ents h' ident e"
  by (simp add: getEntities_def ToString_prim cong: option.case_cong)

lemma lookup_entity_prim:
  assumes "typeof ident \<noteq> ''object''" and "lookup_entity ents e ident h = (entity, h1)"
  shows "\<exists>entity' h1'. lookup_entity ents e ident h' = (entity', h1')
           \<and> (h1' = h' \<or> (\<exists>ob. h1' = h' @ [ob]))
           \<and> (typeof entity \<noteq> ''object'' \<or> entity = Null \<longrightarrow> entity' = entity \<and> h1' = h')
           \<and> (\<not> (typeof entity \<noteq> ''object'' \<or> entity = Null) \<longrightarrow> \<not> (typeof entity' \<noteq> ''object'' \<or> entity' = Null))"
  using assms(2) getEntities_prim [OF assms(1), of ents h e h']
  by (auto simp: lookup_entity_def Let_def fallback_def alloc_def split: if_splits option.splits)

lemma unvisitEntity_again:
  assumes prim: "typeof ident \<noteq> ''object''"
    and first: "unvisitEntity unv ents ident e s = Returned (v, s1)"
    and nc: "cacheKey_of (Entity_key e) (ToString (d_heap s) ident) \<notin> inProgress s"
    and later: "\<forall>k i x. cache_lookup (cache s1) k i = Some x \<longrightarrow> cache_lookup (cache s2) k i = Some x"
    and nc2: "cacheKey_of (Entity_key e) (ToString (d_heap s2) ident) \<notin> inProgress s2"
  shows "\<exists>s3. unvisitEntity unv' ents ident e s2 = Returned (v, s3)"
proof -
  obtain entity h1 where eh: "lookup_entity ents e ident (d_heap s) = (entity, h1)"
    by fastforce
  from lookup_entity_prim [OF prim eh, of "d_heap s2"] obtain entity' h1' where
    eh': "lookup_entity ents e ident (d_heap s2) = (entity', h1')"
    and same: "typeof entity \<noteq> ''object'' \<or> entity = Null \<Longrightarrow> entity' = entity \<and> h1' = d_heap s2"
    and obj': "\<not> (typeof entity \<noteq> ''object'' \<or> entity = Null) \<Longrightarrow> \<not> (typeof entity' \<noteq> ''object'' \<or> entity' = Null)"
    by blast
  note ts = ToString_prim [OF prim]
  note run = first [unfolded unvisitEntity_def eh prod.case Let_def ts]
  note nc' = nc [unfolded ts] nc2 [unfolded ts]
  show ?thesis
  proof (cases "typeof entity \<noteq> ''object'' \<or> entity = Null")
    case True
    with run have "v = entity" by auto
    with True same show ?thesis
      by (auto simp: unvisitEntity_def eh')
  next
    case obj: False
    have "cache_lookup (cache s1) (Entity_key e) (string_of_prim ident) = Some v"
    proof (cases "cache_lookup (cache_init (Entity_key e) (cache s)) (Entity_key e) (string_of_prim ident)")
      case (Some c)
      with obj nc' run show ?thesis by (auto simp: cache_lookup_init)
    next
      case None
      with obj nc' run show ?thesis
        by (auto simp: bind_eq_Returned cache_lookup_store split: prod.splits)
    qed
    with later have "cache_lookup (cache s2) (Entity_key e) (string_of_prim ident) = Some v"
      by simp
    with obj' [OF obj] nc' show ?thesis
      by (auto simp: unvisitEntity_def eh' Let_def ts cache_lookup_init)
  qed
qed

text \<open>
  C10. A returning \<^verbatim>\<open>denormalize\<close> call, for every fuel, schema table, input,
  schema and store, leaves every object that existed before the call exactly as it was:
  the heap only grows and all writes go to objects allocated during the call (the copies
  of the looked-up records and the rebuilt containers). Hence, in a heap without dangling
  references, every value of the store has the same deep copy after the call as before.
\<close>

theorem denormalize_preserves_heap:
  "denormalize fuel T h input schema ents = Returned (output, st) \<longrightarrow>
     length h \<le> length (d_heap st)
     \<and> (\<forall>a<length h. d_heap st ! a = h ! a)
     \<and> (heap_closed h \<longrightarrow> (\<forall>n v. within (length h) v \<longrightarrow> snapshot n (d_heap st) v = snapshot n h v))"
proof
  assume run: "denormalize fuel T h input schema ents = Returned (output, st)"
  have "keeps (length h) (initial_dstate h) st"
  proof (cases "input = Undefined")
    case True
    with run have "st = initial_dstate h" by (simp add: denormalize_def)
    then show ?thesis by (simp add: keeps_refl initial_dstate_def)
  next
    case False
    with run have "unvisit fuel T ents input schema (initial_dstate h) = Returned (output, st)"
      by (simp add: denormalize_def)
    from preservingD [OF unvisit_preserving this] show ?thesis
      by (simp add: initial_dstate_def)
  qed
  then have 1: "length h \<le> length (d_heap st)" and 2: "\<forall>a<length h. d_heap st ! a = h ! a"
    by (simp_all add: keeps_def later_def initial_dstate_def)
  with snapshot_frame [of h "d_heap st"] show "length h \<le> length (d_heap st)
     \<and> (\<forall>a<length h. d_heap st ! a = h ! a)
     \<and> (heap_closed h \<longrightarrow> (\<forall>n v. within (length h) v \<longrightarrow> snapshot n (d_heap st) v = snapshot n h v))"
    by blast
qed

theorem denormalize_preserves_heap_witness:
  "denormalize 3 users_classes stored_cyclic_user (Num 123) (SchemaClass 0) [(''users'', [(''123'', Ref 0)])]
     = Returned (Ref 2,
         \<lparr> d_heap = stored_cyclic_user @ [PlainObj [(''id'', Num 123), (''friends'', Ref 3)], ArrayObj [Ref 2]],
           cache = [(''users'', [(''123'', Ref 2)])], inProgress = {} \<rparr>)
   \<and> heap_closed stored_cyclic_user \<and> within (length stored_cyclic_user) (Ref 0)
   \<and> (stored_cyclic_user @ [PlainObj [(''id'', Num 123), (''friends'', Ref 3)], ArrayObj [Ref 2]]) ! 0
       = stored_cyclic_user ! 0
   \<and> snapshot 2 (stored_cyclic_user @ [PlainObj [(''id'', Num 123), (''friends'', Ref 3)], ArrayObj [Ref 2]]) (Ref 0)
       = snapshot 2 stored_cyclic_user (Ref 0)"
proof -
  have run: "denormalize 3 users_classes stored_cyclic_user (Num 123) (SchemaClass 0) [(''users'', [(''123'', Ref 0)])]
     = Returned (Ref 2,
         \<lparr> d_heap = stored_cyclic_user @ [PlainObj [(''id'', Num 123), (''friends'', Ref 3)], ArrayObj [Ref 2]],
           cache = [(''users'', [(''123'', Ref 2)])], inProgress = {} \<rparr>)"
    using cyclic_denormalize_run [of 0] by (simp add: numeral_3_eq_3)
  have closed: "heap_closed stored_cyclic_user"
    by (auto simp: heap_closed_def stored_cyclic_user_def within_def less_Suc_eq)
  have w: "within (length stored_cyclic_user) (Ref 0)"
    by (simp add: within_def stored_cyclic_user_def)
  from denormalize_preserves_heap [of 3 users_classes stored_cyclic_user "Num 123" "SchemaClass 0"
      "[(''users'', [(''123'', Ref 0)])]" "Ref 2"
      "\<lparr> d_heap = stored_cyclic_user @ [PlainObj [(''id'', Num 123), (''friends'', Ref 3)], ArrayObj [Ref 2]],
         cache = [(''users'', [(''123'', Ref 2)])], inProgress = {} \<rparr>"] run closed w
  have "snapshot 2 (stored_cyclic_user @ [PlainObj [(''id'', Num 123), (''friends'', Ref 3)], ArrayObj [Ref 2]]) (Ref 0)
       = snapshot 2 stored_cyclic_user (Ref 0)"
    by (simp del: snapshot.simps)
  moreover have "(stored_cyclic_user @ [PlainObj [(''id'', Num 123), (''friends'', Ref 3)], ArrayObj [Ref 2]]) ! 0
       = stored_cyclic_user ! 0"
    by (simp add: stored_cyclic_user_def)
  ultimately show ?thesis
    using run closed w by (simp del: snapshot.simps)
qed

subsection \<open>Referential identity\<close>

text \<open>
  The cyclic store \<^verbatim>\<open>{users: {123: {id: 123, friends: [123]}}}\<close> is denormalized,
  with every fuel of at least three, to an object \<open>out\<close> with
  \<^verbatim>\<open>out.friends[0] === out\<close>.
\<close>

lemma cyclic_reference_identity:
  "(case denormalize (n + 3) users_classes stored_cyclic_user (Num 123) (SchemaClass 0)
           [(''users'', [(''123'', Ref 0)])] of
      Returned (out, st) \<Rightarrow>
        typeof out = ''object'' \<and> out \<noteq> Null
        \<and> get_prop (d_heap st) (get_prop (d_heap st) out ''friends'') ''0'' = out
    | _ \<Rightarrow> False)"
proof -
  have "denormalize (n + 3) users_classes stored_cyclic_user (Num 123) (SchemaClass 0)
      [(''users'', [(''123'', Ref 0)])] =
     Returned (Ref 2,
       \<lparr> d_heap = stored_cyclic_user @ [PlainObj [(''id'', Num 123), (''friends'', Ref 3)], ArrayObj [Ref 2]],
         cache = [(''users'', [(''123'', Ref 2)])],
         inProgress = {} \<rparr>)"
    using cyclic_denormalize_run [of n] by (simp add: numeral_3_eq_3)
  moreover have "string_of_nat 0 = ''0''" by code_simp
  ultimately show ?thesis
    by (simp add: stored_cyclic_user_def get_prop_def own_props_def obj_at_def index_keys_def)
qed

lemma album_run:
  "denormalize (Suc (Suc (Suc n))) album_classes photo_store (Ref 2) owner_and_cover
      [(''user'', [(''photo:1'', Ref 0)]), (''photo'', [(''1'', Ref 1)])] =
     Returned (Ref 3,
       \<lparr> d_heap = photo_store @
            [PlainObj [(''owner'', Ref 4), (''cover'', Ref 5)],
             PlainObj [(''id'', Str ''photo:1''), (''avatar'', Ref 5)],
             PlainObj [(''id'', Str ''1''), (''url'', Str ''one.png'')]],
         cache = [(''user'', [(''photo:1'', Ref 4)]), (''photo'', [(''1'', Ref 5)])],
         inProgress = {} \<rparr>)"
  by (simp add: album_classes_def photo_store_def owner_and_cover_def denormalize_simps heap_simps)

lemma photo_run:
  "denormalize (Suc (Suc (Suc n))) photo_classes photo_store (Ref 2) owner_and_cover
      [(''user'', [(''photo:1'', Ref 0)]), (''user:photo'', [(''1'', Ref 1)])] =
     Returned (Ref 3,
       \<lparr> d_heap = photo_store @
            [PlainObj [(''owner'', Ref 4), (''cover'', Ref 5)],
             PlainObj [(''id'', Str ''photo:1''), (''avatar'', Undefined)],
             PlainObj [(''id'', Str ''1''), (''url'', Str ''one.png'')]],
         cache = [(''user'', [(''photo:1'', Ref 4)]), (''user:photo'', [(''1'', Ref 5)])],
         inProgress = {} \<rparr>)"
  by (simp add: photo_classes_def photo_store_def owner_and_cover_def denormalize_simps heap_simps)

text \<open>
  C2. The claim holds of the cyclic example (above) and fails in general: two entities
  of different types whose cache keys \<^verbatim>\<open>`${schema.key}:${id}`\<close> are the same
  string are taken for one entity in progress. In the store where the user
  \<^verbatim>\<open>photo:1\<close> has the photo \<^verbatim>\<open>1\<close> of type \<^verbatim>\<open>user:photo\<close> as avatar,
  the value \<^verbatim>\<open>{owner: 'photo:1', cover: '1'}\<close> refers to that photo twice, neither
  time in a cycle. With every fuel of at least three the reference inside the user is
  resolved to \<^verbatim>\<open>undefined\<close>, because the user's key is in progress, and the second
  one to the reconstructed photo. With \<^verbatim>\<open>photo\<close> as the key of the photo schema
  and everything else the same, both references resolve to the same instance.
\<close>

theorem denormalize_cache_key_collision:
  "(case denormalize (n + 3) photo_classes photo_store (Ref 2) owner_and_cover
           [(''user'', [(''photo:1'', Ref 0)]), (''user:photo'', [(''1'', Ref 1)])] of
      Returned (out, st) \<Rightarrow>
        get_prop (d_heap st) (get_prop (d_heap st) out ''owner'') ''avatar'' = Undefined
        \<and> own_props (d_heap st) (get_prop (d_heap st) out ''cover'')
            = [(''id'', Str ''1''), (''url'', Str ''one.png'')]
    | _ \<Rightarrow> False)
   \<and> (case denormalize (n + 3) album_classes photo_store (Ref 2) owner_and_cover
           [(''user'', [(''photo:1'', Ref 0)]), (''photo'', [(''1'', Ref 1)])] of
        Returned (out, st) \<Rightarrow>
          get_prop (d_heap st) (get_prop (d_heap st) out ''owner'') ''avatar''
            = get_prop (d_heap st) out ''cover''
          \<and> own_props (d_heap st) (get_prop (d_heap st) out ''cover'')
              = [(''id'', Str ''1''), (''url'', Str ''one.png'')]
      | _ \<Rightarrow> False)"
proof -
  have 1: "denormalize (n + 3) photo_classes photo_store (Ref 2) owner_and_cover
      [(''user'', [(''photo:1'', Ref 0)]), (''user:photo'', [(''1'', Ref 1)])] =
     Returned (Ref 3,
       \<lparr> d_heap = photo_store @
            [PlainObj [(''owner'', Ref 4), (''cover'', Ref 5)],
             PlainObj [(''id'', Str ''photo:1''), (''avatar'', Undefined)],
             PlainObj [(''id'', Str ''1''), (''url'', Str ''one.png'')]],
         cache = [(''user'', [(''photo:1'', Ref 4)]), (''user:photo'', [(''1'', Ref 5)])],
         inProgress = {} \<rparr>)"
    using photo_run [of n] by (simp add: numeral_3_eq_3)
  have 2: "denormalize (n + 3) album_classes photo_store (Ref 2) owner_and_cover
      [(''user'', [(''photo:1'', Ref 0)]), (''photo'', [(''1'', Ref 1)])] =
     Returned (Ref 3,
       \<lparr> d_heap = photo_store @
            [PlainObj [(''owner'', Ref 4), (''cover'', Ref 5)],
             PlainObj [(''id'', Str ''photo:1''), (''avatar'', Ref 5)],
             PlainObj [(''id'', Str ''1''), (''url'', Str ''one.png'')]],
         cache = [(''user'', [(''photo:1'', Ref 4)]), (''photo'', [(''1'', Ref 5)])],
         inProgress = {} \<rparr>)"
    using album_run [of n] by (simp add: numeral_3_eq_3)
  show ?thesis
    unfolding 1 2 by (simp add: photo_store_def get_prop_def own_props_def obj_at_def)
qed

text \<open>
  Where no such collision interferes, the cache gives the identity the claim describes:
  when a reference to a primitive id is resolved while its cache key is not in progress
  and returns \<open>v\<close>, then in every state whose cache still has the entries of the
  state reached, and where the key is again not in progress, resolving the same id
  through the same schema returns the very same \<open>v\<close>, whichever unvisitor continues
  the traversal. Every returning \<open>unvisit\<close> call keeps the entries of the cache.
\<close>

lemma repeated_reference_identity:
  "(typeof ident \<noteq> ''object''
      \<and> unvisitEntity (unvisit n1 T ents) ents ident e s = Returned (v, s1)
      \<and> cacheKey_of (Entity_key e) (ToString (d_heap s) ident) \<notin> inProgress s
      \<and> (\<forall>k i x. cache_lookup (cache s1) k i = Some x \<longrightarrow> cache_lookup (cache s2) k i = Some x)
      \<and> cacheKey_of (Entity_key e) (ToString (d_heap s2) ident) \<notin> inProgress s2
    \<longrightarrow> (\<exists>s3. unvisitEntity (unvisit n2 T ents) ents ident e s2 = Returned (v, s3)))
   \<and> (unvisit m T ents input schema s = Returned (w, s') \<longrightarrow>
        (\<forall>k i x. cache_lookup (cache s) k i = Some x \<longrightarrow> cache_lookup (cache s') k i = Some x))"
proof -
  have "unvisit m T ents input schema s = Returned (w, s') \<longrightarrow>
        (\<forall>k i x. cache_lookup (cache s) k i = Some x \<longrightarrow> cache_lookup (cache s') k i = Some x)"
    using preservingD [OF unvisit_preserving, of m T ents input schema s w s' "length (d_heap s)"]
    by (simp add: keeps_def later_def)
  then show ?thesis
    by (blast intro: unvisitEntity_again)
qed

subsection \<open>Missing entities and what entity resolution throws\<close>



















text \<open>
  Another error that is no circular reference: under the union of users and groups the
  tag \<^verbatim>\<open>{id: 1, schema: 'nope'}\<close> selects no schema, and the object path of the
  unvisitor throws a TypeError on the undefined schema, with every fuel of at least two.
\<close>

lemma denormalize_unmapped_tag:
  "denormalize (n + 2) union_classes unmapped_tag (Ref 0) (SchemaClass 2) [] = Threw TypeError"
proof -
  have "denormalize (Suc (Suc n)) union_classes unmapped_tag (Ref 0) (SchemaClass 2) [] = Threw TypeError"
    by (simp add: union_classes_def unmapped_tag_def denormalize_simps heap_simps
          object_prototype_keys_def)
  then show ?thesis by simp
qed



subsection \<open>Round trip\<close>




subsection \<open>Round trip of conforming inputs: normalization\<close>












lemma entity_at_update:
  "entity_at (AList.update key (AList.update i v (case map_of E key of Some b \<Rightarrow> b | None \<Rightarrow> [])) E) key' i' =
     (if key' = key \<and> i' = i then Some v else entity_at E key' i')"
  by (auto simp: entity_at_def update_conv' split: option.splits)











lemma fresh_mono: "fresh st I \<Longrightarrow> J \<subseteq> I \<Longrightarrow> fresh st J"
  by (auto simp: fresh_def)



lemma fresh_heap [simp]: "fresh (st\<lparr>n_heap := H\<rparr>) I = fresh st I"
  by (simp add: fresh_def visited_list_def)













lemma visited_list_heap [simp]: "visited_list (st\<lparr>n_heap := H\<rparr>) k i = visited_list st k i"
  by (simp add: visited_list_def)



lemma snapshot_RefE:
  assumes "snapshot j h (Ref a) = Some t"
  obtains i where "j = Suc i" and "a < length h"
    and "case h ! a of
           PlainObj fs \<Rightarrow> \<exists>fts. t = TObject fts \<and> traverse_props (snapshot i h) fs = Some fts
         | ArrayObj vs \<Rightarrow> \<exists>ts. t = TArray ts \<and> traverse (snapshot i h) vs = Some ts
         | ImmutableObj fs \<Rightarrow> \<exists>fts. t = TImmutable fts \<and> traverse_props (snapshot i h) fs = Some fts"
  using assms by (cases j) (auto split: if_splits obj.splits)








subsection \<open>Round trip of conforming inputs: denormalization\<close>






lemma cache_outside_mono: "cache_outside I s s' \<Longrightarrow> I \<subseteq> K \<Longrightarrow> cache_outside K s s'"
  unfolding cache_outside_def by blast


lemma dfresh_heap [simp]: "dfresh (s\<lparr>d_heap := H\<rparr>) I = dfresh s I"
  by (simp add: dfresh_def)

















end
